theory Spec2Isabelle
  imports Main "HOL-Library.Word"
begin

section \<open>Exceptions\<close>

text \<open>
  The exceptions that \<^verbatim>\<open>converters/base.py\<close> and the libraries it calls can raise. A
  function that can raise returns a sum: \<open>Inl\<close> carries the exception.
\<close>

datatype error =
    NotImplementedError
  | AssertionError
  | KeyError
  | IndexError
  | UnboundLocalError
  | ValueError
  | TileDBError
  | IncompatibleAxesError
  | SchemaOverflowError

section \<open>The schema policy: \<^verbatim>\<open>_get_schema\<close>\<close>

subsection \<open>numpy: \<^verbatim>\<open>np.prod\<close> and \<^verbatim>\<open>np.min_scalar_type\<close>\<close>

datatype np_dtype =
    UInt8 | UInt16 | UInt32 | UInt64
  | Int8 | Int16 | Int32 | Int64
  | Float16

fun dtype_bits :: "np_dtype \<Rightarrow> nat" where
  "dtype_bits UInt8 = 8"
| "dtype_bits UInt16 = 16"
| "dtype_bits UInt32 = 32"
| "dtype_bits UInt64 = 64"
| "dtype_bits Int8 = 8"
| "dtype_bits Int16 = 16"
| "dtype_bits Int32 = 32"
| "dtype_bits Int64 = 64"
| "dtype_bits Float16 = 16"

fun is_unsigned :: "np_dtype \<Rightarrow> bool" where
  "is_unsigned UInt8 = True"
| "is_unsigned UInt16 = True"
| "is_unsigned UInt32 = True"
| "is_unsigned UInt64 = True"
| "is_unsigned _ = False"

text \<open>The largest and the smallest integer of an integer dtype.\<close>

fun dtype_max :: "np_dtype \<Rightarrow> int" where
  "dtype_max UInt8 = 255"
| "dtype_max UInt16 = 65535"
| "dtype_max UInt32 = 4294967295"
| "dtype_max UInt64 = 18446744073709551615"
| "dtype_max Int8 = 127"
| "dtype_max Int16 = 32767"
| "dtype_max Int32 = 2147483647"
| "dtype_max Int64 = 9223372036854775807"
| "dtype_max Float16 = 0"

fun dtype_min :: "np_dtype \<Rightarrow> int" where
  "dtype_min Int8 = - 128"
| "dtype_min Int16 = - 32768"
| "dtype_min Int32 = - 2147483648"
| "dtype_min Int64 = - 9223372036854775808"
| "dtype_min _ = 0"

fun is_integer_dtype :: "np_dtype \<Rightarrow> bool" where
  "is_integer_dtype Float16 = False"
| "is_integer_dtype _ = True"

text \<open>
  \<^verbatim>\<open>np.prod(dim_shape)\<close> on a non-empty tuple of Python integers is computed on an
  \<^verbatim>\<open>int64\<close> array: the product wraps around silently at 64 bits.
\<close>

definition np_prod :: "int list \<Rightarrow> 64 word" where
  "np_prod dim_shape = prod_list (map word_of_int dim_shape)"

text \<open>
  \<^verbatim>\<open>np.min_scalar_type\<close> of an \<^verbatim>\<open>int64\<close> scalar: the narrowest unsigned type that
  holds a non-negative value, the narrowest signed type that holds a negative one.
\<close>

definition min_scalar_type :: "64 word \<Rightarrow> np_dtype" where
  "min_scalar_type w =
     (let v = sint w in
      if 0 \<le> v then
        (if v \<le> 255 then UInt8
         else if v \<le> 65535 then UInt16
         else if v \<le> 4294967295 then UInt32
         else UInt64)
      else
        (if - 128 \<le> v then Int8
         else if - 32768 \<le> v then Int16
         else if - 2147483648 \<le> v then Int32
         else Int64))"

text \<open>
  Line 368: \<^verbatim>\<open>dim_dtype = np.min_scalar_type(np.prod(dim_shape))\<close>. The product of the
  empty tuple is the float \<^verbatim>\<open>1.0\<close>, whose minimal scalar type is \<^verbatim>\<open>float16\<close>.
\<close>

definition index_dtype :: "int list \<Rightarrow> np_dtype" where
  "index_dtype dim_shape =
     (if dim_shape = [] then Float16 else min_scalar_type (np_prod dim_shape))"

subsection \<open>Tiles\<close>

text \<open>
  A maximum tile is an integer or \<^verbatim>\<open>np.inf\<close>: "setting a tile to infinite effectively
  makes it equal to the dimension size".
\<close>

datatype tile_bound = Fin int | Inf

text \<open>\<^verbatim>\<open>_DEFAULT_TILES = {"T": 1, "C": np.inf, "Z": 1, "Y": 1024, "X": 1024}\<close>\<close>

definition DEFAULT_TILES :: "char \<rightharpoonup> tile_bound" where
  "DEFAULT_TILES =
     [CHR ''T'' \<mapsto> Fin 1, CHR ''C'' \<mapsto> Inf, CHR ''Z'' \<mapsto> Fin 1,
      CHR ''Y'' \<mapsto> Fin 1024, CHR ''X'' \<mapsto> Fin 1024]"

text \<open>
  \<^verbatim>\<open>max_tiles["X"] *= pixel_depth\<close>; the pixel depth is a positive channel count, for
  which the product with infinity is infinity.
\<close>

fun tile_times :: "tile_bound \<Rightarrow> int \<Rightarrow> tile_bound" where
  "tile_times (Fin t) d = Fin (t * d)"
| "tile_times Inf d = Inf"

text \<open>
  Lines 205 to 207 of \<^verbatim>\<open>to_tiledb\<close>:
  \<^verbatim>\<open>max_tiles = cls._DEFAULT_TILES.copy(); max_tiles.update(tiles); max_tiles["X"] *= pixel_depth\<close>
\<close>

definition make_max_tiles :: "(char \<rightharpoonup> tile_bound) \<Rightarrow> int \<Rightarrow> (char \<rightharpoonup> tile_bound)" where
  "make_max_tiles tiles pixel_depth =
     (let max_tiles = DEFAULT_TILES ++ tiles in
      case max_tiles (CHR ''X'') of
        None \<Rightarrow> max_tiles
      | Some t \<Rightarrow> max_tiles(CHR ''X'' \<mapsto> tile_times t pixel_depth))"

text \<open>Python's \<^verbatim>\<open>min(dim_size, max_tile)\<close>: the first argument unless the second is smaller.\<close>

fun py_min :: "int \<Rightarrow> tile_bound \<Rightarrow> int" where
  "py_min dim_size (Fin t) = (if t < dim_size then t else dim_size)"
| "py_min dim_size Inf = dim_size"

subsection \<open>Dimensions and schemas\<close>

record dim =
  dim_name :: char
  dim_lo :: int
  dim_hi :: int
  dim_tile :: int
  dim_type :: np_dtype

type_synonym compressor = string

record array_schema =
  sch_dims :: "dim list"
  sch_attr_dtype :: np_dtype
  sch_filters :: "compressor list"

text \<open>
  \<^verbatim>\<open>tiledb.Dim(name, (lo, hi), tile, dtype=dtype)\<close> belongs to the storage engine. Of its
  checks the model keeps these: the domain is not empty, the tile extent is positive, the
  type is an integer type and holds both bounds. A dimension the model rejects is one the
  engine rejects; the engine's further checks are not modelled.
\<close>

definition tiledb_Dim :: "char \<Rightarrow> int \<times> int \<Rightarrow> int \<Rightarrow> np_dtype \<Rightarrow> error + dim" where
  "tiledb_Dim name domain tile dtype =
     (if snd domain < fst domain \<or> tile < 1 \<or> \<not> is_integer_dtype dtype
         \<or> fst domain < dtype_min dtype \<or> dtype_max dtype < snd domain
      then Inl TileDBError
      else Inr \<lparr>dim_name = name, dim_lo = fst domain, dim_hi = snd domain,
                dim_tile = tile, dim_type = dtype\<rparr>)"

text \<open>The loop of lines 372 to 375 over \<^verbatim>\<open>zip(dim_names, dim_shape)\<close>.\<close>

fun get_schema_dims ::
  "(char \<times> int) list \<Rightarrow> (char \<rightharpoonup> tile_bound) \<Rightarrow> np_dtype \<Rightarrow> error + dim list" where
  "get_schema_dims [] max_tiles dim_dtype = Inr []"
| "get_schema_dims ((name, dim_size) # rest) max_tiles dim_dtype =
     (case max_tiles name of
        None \<Rightarrow> Inl KeyError
      | Some max_tile \<Rightarrow>
          (case tiledb_Dim name (0, dim_size - 1) (py_min dim_size max_tile) dim_dtype of
             Inl e \<Rightarrow> Inl e
           | Inr d \<Rightarrow>
               (case get_schema_dims rest max_tiles dim_dtype of
                  Inl e \<Rightarrow> Inl e
                | Inr ds \<Rightarrow> Inr (d # ds))))"

definition get_schema ::
  "string \<Rightarrow> int list \<Rightarrow> (char \<rightharpoonup> tile_bound) \<Rightarrow> np_dtype \<Rightarrow> compressor
     \<Rightarrow> error + array_schema" where
  "get_schema dim_names dim_shape max_tiles attr_dtype compressor =
     (let dim_dtype = index_dtype dim_shape in
      if length dim_names \<noteq> length dim_shape then Inl AssertionError
      else
        (case get_schema_dims (zip dim_names dim_shape) max_tiles dim_dtype of
           Inl e \<Rightarrow> Inl e
         | Inr ds \<Rightarrow>
             Inr \<lparr>sch_dims = ds, sch_attr_dtype = attr_dtype, sch_filters = [compressor]\<rparr>))"

text \<open>
  The index type policy in the words of the specification, for comparison with
  \<open>index_dtype\<close>: "the smallest unsigned integer width (8/16/32/64-bit) whose range
  covers \<open>total_cell_count - 1\<close>; fails with \<open>SchemaOverflowError\<close> if no supported
  width suffices".
\<close>

definition spec_choose_index_dtype :: "int \<Rightarrow> error + np_dtype" where
  "spec_choose_index_dtype total_cell_count =
     (let v = total_cell_count - 1 in
      if v \<le> dtype_max UInt8 then Inr UInt8
      else if v \<le> dtype_max UInt16 then Inr UInt16
      else if v \<le> dtype_max UInt32 then Inr UInt32
      else if v \<le> dtype_max UInt64 then Inr UInt64
      else Inl SchemaOverflowError)"

section \<open>Axes and tiles\<close>

subsection \<open>\<^verbatim>\<open>Axes\<close> and \<^verbatim>\<open>AxesMapper\<close>\<close>

text \<open>
  Modelled from the spec: \<^verbatim>\<open>converters/axes.py\<close> (\<^verbatim>\<open>Axes\<close>, \<^verbatim>\<open>AxesMapper\<close>) is imported
  by \<^verbatim>\<open>base.py\<close> but is not among the sources. From sections 3 and 4.1: an \<^verbatim>\<open>Axes\<close> is an
  ordered sequence of distinct labels drawn from T, C, Z, Y, X;
  \<^verbatim>\<open>Axes.canonical(shape)\<close> "returns a canonical target ordering (fixed priority: T, C, Z,
  Y, X) filtered to the labels actually present"; \<^verbatim>\<open>AxesMapper(source, target)\<close> "fails
  with \<^verbatim>\<open>IncompatibleAxesError\<close> if the label sets differ", holds the permutation as an "array
  of target-position to source-position indices", \<^verbatim>\<open>map_shape\<close> "permutes a shape tuple
  from source to target order", \<^verbatim>\<open>map_array\<close> reorders the axes of an array to target
  order as a pure permutation, \<^verbatim>\<open>map_tile\<close> "permutes a tuple of per-axis slice selectors
  the same way", and \<^verbatim>\<open>inverted\<close> is "the mapper with source/target swapped".
\<close>

definition valid_axes :: "string \<Rightarrow> bool" where
  "valid_axes dims \<longleftrightarrow> distinct dims \<and> set dims \<subseteq> set ''TCZYX''"

definition canonical :: "string \<Rightarrow> int list \<Rightarrow> string" where
  "canonical dims shape = filter (\<lambda>d. d \<in> set dims) ''TCZYX''"

record axes_mapper =
  am_source :: string
  am_target :: string

definition AxesMapper :: "string \<Rightarrow> string \<Rightarrow> error + axes_mapper" where
  "AxesMapper source target =
     (if set source = set target \<and> length source = length target
      then Inr \<lparr>am_source = source, am_target = target\<rparr>
      else Inl IncompatibleAxesError)"

fun index_of :: "'a list \<Rightarrow> 'a \<Rightarrow> nat" where
  "index_of [] x = 0"
| "index_of (y # ys) x = (if x = y then 0 else Suc (index_of ys x))"

text \<open>The permutation: for each target position, the position of its label in the source.\<close>

definition axes_order :: "axes_mapper \<Rightarrow> nat list" where
  "axes_order m = map (index_of (am_source m)) (am_target m)"

definition inverted :: "axes_mapper \<Rightarrow> axes_mapper" where
  "inverted m = \<lparr>am_source = am_target m, am_target = am_source m\<rparr>"

text \<open>
  Reordering a tuple, \<^verbatim>\<open>tuple(xs[i] for i in order)\<close>: an index beyond the tuple raises
  \<^verbatim>\<open>IndexError\<close>.
\<close>

definition permute :: "nat list \<Rightarrow> 'a list \<Rightarrow> error + 'a list" where
  "permute order xs =
     (if list_all (\<lambda>i. i < length xs) order then Inr (map (\<lambda>i. xs ! i) order)
      else Inl IndexError)"

definition map_shape :: "axes_mapper \<Rightarrow> int list \<Rightarrow> error + int list" where
  "map_shape m shape = permute (axes_order m) shape"

text \<open>A tile is a tuple of slices, one per axis; a slice is the pair of its start and stop.\<close>

type_synonym tile = "(int \<times> int) list"

definition map_tile :: "axes_mapper \<Rightarrow> tile \<Rightarrow> error + tile" where
  "map_tile m t = permute (axes_order m) t"

text \<open>
  An in-memory array: its shape and its cells, addressed by index tuples. Transposing by
  the permutation gives the array whose cell at a target index is the source cell at that
  index reordered back; the number of axes must be that of the mapper.
\<close>

type_synonym pixel = int

record ndarray =
  nd_shape :: "int list"
  nd_data :: "int list \<Rightarrow> pixel"

definition map_array :: "axes_mapper \<Rightarrow> ndarray \<Rightarrow> error + ndarray" where
  "map_array m a =
     (if length (nd_shape a) \<noteq> length (am_source m) then Inl ValueError
      else Inr \<lparr>nd_shape = map (\<lambda>i. nd_shape a ! i) (axes_order m),
                nd_data = (\<lambda>idx. nd_data a (map (\<lambda>i. idx ! i) (axes_order (inverted m))))\<rparr>)"

subsection \<open>The tile iterator\<close>

text \<open>
  Modelled from the spec: \<^verbatim>\<open>converters/tiles.py\<close> (\<^verbatim>\<open>iter_tiles\<close>, \<^verbatim>\<open>num_tiles\<close>) is imported
  by \<^verbatim>\<open>base.py\<close> but is not among the sources. From section 4.2: \<^verbatim>\<open>iter_tiles\<close> produces
  the tile index-tuples of a domain "in row-major order over the per-dimension tile-index
  grid (last dimension varies fastest)"; "the final tile along any dimension is clipped"
  to the domain bound; \<^verbatim>\<open>num_tiles\<close> is the product over the dimensions of
  \<open>ceil(extent / tile_size)\<close>.
\<close>

definition dim_extent :: "dim \<Rightarrow> int" where
  "dim_extent d = dim_hi d - dim_lo d + 1"

definition dim_num_tiles :: "dim \<Rightarrow> nat" where
  "dim_num_tiles d = nat ((dim_extent d + dim_tile d - 1) div dim_tile d)"

definition dim_slices :: "dim \<Rightarrow> (int \<times> int) list" where
  "dim_slices d =
     map (\<lambda>k. (dim_lo d + int k * dim_tile d,
               min (dim_lo d + (int k + 1) * dim_tile d) (dim_hi d + 1)))
       [0..<dim_num_tiles d]"

definition iter_tiles :: "dim list \<Rightarrow> tile list" where
  "iter_tiles domain = product_lists (map dim_slices domain)"

definition num_tiles :: "dim list \<Rightarrow> nat" where
  "num_tiles domain = prod_list (map dim_num_tiles domain)"

section \<open>The storage engine and the reader\<close>

text \<open>
  Metadata values: numbers, strings, and the list of per-level descriptors that
  \<^verbatim>\<open>to_tiledb\<close> stores under the key \<^verbatim>\<open>levels\<close> (the JSON text of \<^verbatim>\<open>json.dumps\<close> is
  represented by the list it encodes).
\<close>

record level_meta =
  lm_uri :: string
  lm_level :: int
  lm_axes :: string
  lm_shape :: "int list"

datatype mval = MInt int | MStr string | MLevels "level_meta list"

type_synonym meta = "string \<rightharpoonup> mval"

text \<open>
  A stored array has a schema, metadata and cells; a cell that was never written is
  \<open>None\<close>. A group has metadata and members (name and the \<^verbatim>\<open>relative\<close> flag).
\<close>

record array_obj =
  a_schema :: array_schema
  a_meta :: meta
  a_cells :: "int list \<rightharpoonup> pixel"

record group_obj =
  g_meta :: meta
  g_members :: "(string \<times> bool) list"

datatype obj = Group group_obj | Array array_obj

type_synonym store = "string \<rightharpoonup> obj"

text \<open>
  What a run does besides changing the store: warnings, reads from the source image,
  writes to arrays, the worker pool, calls of the scaler, the cloud registration.
\<close>

datatype event =
    Warn
  | ReadLevelImage int "tile option"
  | WriteAll string
  | WriteTile string tile
  | PoolCreate int
  | PoolShutdown
  | ScalerApply string string nat
  | CloudRegister string

record state =
  st_store :: store
  st_log :: "event list"

definition emit :: "event \<Rightarrow> state \<Rightarrow> state" where
  "emit e s = s\<lparr>st_log := st_log s @ [e]\<rparr>"

definition put :: "string \<Rightarrow> obj \<Rightarrow> state \<Rightarrow> state" where
  "put uri ob s = s\<lparr>st_store := (st_store s)(uri \<mapsto> ob)\<rparr>"

text \<open>\<^verbatim>\<open>tiledb.object_type(uri)\<close>: \<^verbatim>\<open>"array"\<close>, \<^verbatim>\<open>"group"\<close> or \<^verbatim>\<open>None\<close>.\<close>

definition object_type :: "state \<Rightarrow> string \<Rightarrow> string option" where
  "object_type s uri =
     (case st_store s uri of
        None \<Rightarrow> None
      | Some (Group g) \<Rightarrow> Some ''group''
      | Some (Array a) \<Rightarrow> Some ''array'')"

text \<open>Creating a group or an array where an object exists already is an error.\<close>

definition group_create :: "string \<Rightarrow> state \<Rightarrow> (error \<times> state) + state" where
  "group_create uri s =
     (case st_store s uri of
        None \<Rightarrow> Inr (put uri (Group \<lparr>g_meta = Map.empty, g_members = []\<rparr>) s)
      | Some ob \<Rightarrow> Inl (TileDBError, s))"

definition Array_create :: "string \<Rightarrow> array_schema \<Rightarrow> state \<Rightarrow> (error \<times> state) + state" where
  "Array_create uri schema s =
     (case st_store s uri of
        None \<Rightarrow>
          Inr (put uri (Array \<lparr>a_schema = schema, a_meta = Map.empty, a_cells = Map.empty\<rparr>) s)
      | Some ob \<Rightarrow> Inl (TileDBError, s))"

text \<open>\<^verbatim>\<open>tiledb.open(uri)\<close>: the array at \<open>uri\<close>, an error when there is none.\<close>

definition tiledb_open :: "string \<Rightarrow> state \<Rightarrow> (error \<times> state) + array_obj" where
  "tiledb_open uri s =
     (case st_store s uri of
        Some (Array a) \<Rightarrow> Inr a
      | _ \<Rightarrow> Inl (TileDBError, s))"

definition array_shape :: "array_obj \<Rightarrow> int list" where
  "array_shape a = map dim_extent (sch_dims (a_schema a))"

text \<open>
  Assigning an in-memory array to a region of a stored array, \<^verbatim>\<open>a[tile] = image\<close>: the
  shape of the image must be that of the region; the cell at an index of the region becomes
  the image cell at the offset of the index in the region.
\<close>

definition in_tile :: "tile \<Rightarrow> int list \<Rightarrow> bool" where
  "in_tile t idx \<longleftrightarrow> list_all2 (\<lambda>sl i. fst sl \<le> i \<and> i < snd sl) t idx"

definition tile_shape :: "tile \<Rightarrow> int list" where
  "tile_shape t = map (\<lambda>sl. snd sl - fst sl) t"

definition tile_offset :: "tile \<Rightarrow> int list \<Rightarrow> int list" where
  "tile_offset t idx = map (\<lambda>(i, sl). i - fst sl) (zip idx t)"

definition setitem :: "string \<Rightarrow> tile \<Rightarrow> ndarray \<Rightarrow> state \<Rightarrow> (error \<times> state) + state" where
  "setitem uri t img s =
     (case st_store s uri of
        Some (Array a) \<Rightarrow>
          (if nd_shape img \<noteq> tile_shape t then Inl (ValueError, s)
           else Inr (put uri
                  (Array (a\<lparr>a_cells :=
                     (\<lambda>idx. if in_tile t idx then Some (nd_data img (tile_offset t idx))
                            else a_cells a idx)\<rparr>)) s))
      | _ \<Rightarrow> Inl (TileDBError, s))"

text \<open>The whole domain of an array as one tile: \<^verbatim>\<open>a[:]\<close>.\<close>

definition full_tile :: "dim list \<Rightarrow> tile" where
  "full_tile domain = map (\<lambda>d. (dim_lo d, dim_hi d + 1)) domain"

text \<open>\<^verbatim>\<open>a.meta.update(metadata, level=level)\<close> on the array at \<open>uri\<close>.\<close>

definition array_meta_update :: "string \<Rightarrow> meta \<Rightarrow> state \<Rightarrow> (error \<times> state) + state" where
  "array_meta_update uri m s =
     (case st_store s uri of
        Some (Array a) \<Rightarrow> Inr (put uri (Array (a\<lparr>a_meta := a_meta a ++ m\<rparr>)) s)
      | _ \<Rightarrow> Inl (TileDBError, s))"

text \<open>
  The reader of a source image, with the interface of the abstract class
  \<^verbatim>\<open>ImageReader\<close>: \<^verbatim>\<open>level_image(level, tile)\<close> with \<^verbatim>\<open>tile = None\<close> is the whole image.
\<close>

record reader =
  r_axes :: string
  r_level_count :: int
  r_level_shape :: "int \<Rightarrow> int list"
  r_level_dtype :: "int \<Rightarrow> np_dtype"
  r_level_image :: "int \<Rightarrow> tile option \<Rightarrow> ndarray"
  r_level_metadata :: "int \<Rightarrow> meta"
  r_group_metadata :: meta

text \<open>
  The scaler of \<^verbatim>\<open>converters/scale.py\<close>, which is not among the sources, is taken as a
  parameter: what \<^verbatim>\<open>_scale\<close> uses of it are the shapes of the levels to generate, the
  \<^verbatim>\<open>progressive\<close> flag, and \<^verbatim>\<open>apply(base, output, index)\<close>, which fills the cells of the
  output array from the base array. \<^verbatim>\<open>pyramid_kwargs\<close> stands for the constructor call
  \<^verbatim>\<open>Scaler(a.shape, axes, **pyramid_kwargs)\<close>.
\<close>

record scaler =
  sc_level_shapes :: "int list list"
  sc_progressive :: bool
  sc_apply :: "array_obj \<Rightarrow> array_obj \<Rightarrow> nat \<Rightarrow> (int list \<rightharpoonup> pixel)"

type_synonym pyramid_kwargs = "int list \<Rightarrow> string \<Rightarrow> error + scaler"

section \<open>Ingestion: \<^verbatim>\<open>ImageConverter.to_tiledb\<close>\<close>

subsection \<open>Paths\<close>

text \<open>\<^verbatim>\<open>str(n)\<close> of an integer, for the f-string \<^verbatim>\<open>f"l_{level}.tdb"\<close>.\<close>

fun show_nat :: "nat \<Rightarrow> string" where
  "show_nat n =
     (if n < 10 then [''0123456789'' ! n]
      else show_nat (n div 10) @ [''0123456789'' ! (n mod 10)])"

definition show_int :: "int \<Rightarrow> string" where
  "show_int i = (if i < 0 then CHR ''-'' # show_nat (nat (- i)) else show_nat (nat i))"

text \<open>\<^verbatim>\<open>os.path.join(a, b)\<close> for a relative \<open>b\<close>, and \<^verbatim>\<open>os.path.basename\<close>.\<close>

definition path_join :: "string \<Rightarrow> string \<Rightarrow> string" where
  "path_join a b = (if a = [] \<or> last a = CHR ''/'' then a @ b else a @ ''/'' @ b)"

definition basename :: "string \<Rightarrow> string" where
  "basename p = rev (takeWhile (\<lambda>c. c \<noteq> CHR ''/'') (rev p))"

definition level_uri :: "string \<Rightarrow> int \<Rightarrow> string" where
  "level_uri output_path level = path_join output_path (''l_'' @ show_int level @ ''.tdb'')"

subsection \<open>Parameters\<close>

text \<open>
  \<^verbatim>\<open>get_pixel_depth\<close> and the constants \<^verbatim>\<open>version\<close>, \<^verbatim>\<open>FMT_VERSION\<close> and
  \<^verbatim>\<open>DATASET_TYPE\<close> are imported by \<^verbatim>\<open>base.py\<close> from modules that are not among the
  sources: they are parameters.
\<close>

record env =
  env_get_pixel_depth :: "compressor \<Rightarrow> int"
  env_version :: string
  env_FMT_VERSION :: int
  env_DATASET_TYPE :: string

text \<open>The keyword arguments of \<^verbatim>\<open>to_tiledb\<close>.\<close>

record args =
  arg_level_min :: int
  arg_tiles :: "char \<rightharpoonup> tile_bound"
  arg_preserve_axes :: bool
  arg_chunked :: bool
  arg_max_workers :: int
  arg_compressor :: compressor
  arg_pyramid_kwargs :: "pyramid_kwargs option"

text \<open>
  The local variables of \<^verbatim>\<open>to_tiledb\<close> that outlive one pass of the loop over the levels.
  \<^verbatim>\<open>dim_names\<close> and \<^verbatim>\<open>attr_dtype\<close> are unbound until a level has been converted.
\<close>

record loop_vars =
  lv_uris :: "string list"
  lv_levels_meta :: "level_meta list"
  lv_dim_names :: "string option"
  lv_attr_dtype :: "np_dtype option"

subsection \<open>Writing one level (lines 258 to 281)\<close>

definition tile_to_tiledb ::
  "reader \<Rightarrow> axes_mapper \<Rightarrow> int \<Rightarrow> string \<Rightarrow> tile \<Rightarrow> state \<Rightarrow> (error \<times> state) + state" where
  "tile_to_tiledb rd axes_mapper level uri level_tile s =
     (case map_tile (inverted axes_mapper) level_tile of
        Inl e \<Rightarrow> Inl (e, s)
      | Inr source_tile \<Rightarrow>
          (let s1 = emit (ReadLevelImage level (Some source_tile)) s in
           case map_array axes_mapper (r_level_image rd level (Some source_tile)) of
             Inl e \<Rightarrow> Inl (e, s1)
           | Inr arr \<Rightarrow>
               (case setitem uri level_tile arr s1 of
                  Inl es \<Rightarrow> Inl es
                | Inr s2 \<Rightarrow> Inr (emit (WriteTile uri level_tile) s2))))"

text \<open>
  \<^verbatim>\<open>mapper(tile_to_tiledb, iter_tiles(a.domain))\<close>, consumed to its end: the tiles are
  processed one after the other, in the order of the iterator, and the first exception
  ends the loop. (With a worker pool the tiles are dispatched to threads; the model keeps
  the order of submission.)
\<close>

fun map_tiles ::
  "(tile \<Rightarrow> state \<Rightarrow> (error \<times> state) + state) \<Rightarrow> tile list \<Rightarrow> state
     \<Rightarrow> (error \<times> state) + state" where
  "map_tiles f [] s = Inr s"
| "map_tiles f (t # ts) s =
     (case f t s of Inl es \<Rightarrow> Inl es | Inr s' \<Rightarrow> map_tiles f ts s')"

definition write_level ::
  "reader \<Rightarrow> axes_mapper \<Rightarrow> bool \<Rightarrow> int \<Rightarrow> int \<Rightarrow> string \<Rightarrow> state
     \<Rightarrow> (error \<times> state) + state" where
  "write_level rd axes_mapper chunked max_workers level uri s =
     (case tiledb_open uri s of
        Inl es \<Rightarrow> Inl es
      | Inr a \<Rightarrow>
     (case array_meta_update uri (r_level_metadata rd level ++ [''level'' \<mapsto> MInt level]) s of
        Inl es \<Rightarrow> Inl es
      | Inr s1 \<Rightarrow>
          if chunked \<or> max_workers \<noteq> 0 then
            (if max_workers \<noteq> 0 then
               (if max_workers < 0 then Inl (ValueError, s1)
                else
                  (case map_tiles (tile_to_tiledb rd axes_mapper level uri)
                          (iter_tiles (sch_dims (a_schema a)))
                          (emit (PoolCreate max_workers) s1) of
                     Inl es \<Rightarrow> Inl es
                   | Inr s2 \<Rightarrow> Inr (emit PoolShutdown s2)))
             else
               map_tiles (tile_to_tiledb rd axes_mapper level uri)
                 (iter_tiles (sch_dims (a_schema a))) s1)
          else
            (let s2 = emit (ReadLevelImage level None) s1 in
             case map_array axes_mapper (r_level_image rd level None) of
               Inl e \<Rightarrow> Inl (e, s2)
             | Inr arr \<Rightarrow>
                 (case setitem uri (full_tile (sch_dims (a_schema a))) arr s2 of
                    Inl es \<Rightarrow> Inl es
                  | Inr s3 \<Rightarrow> Inr (emit (WriteAll uri) s3)))))"

subsection \<open>The loop over the levels (lines 221 to 281)\<close>

text \<open>The body of the loop for a level that is not skipped (lines 227 to 281).\<close>

definition convert_level ::
  "reader \<Rightarrow> args \<Rightarrow> string \<Rightarrow> int \<Rightarrow> (char \<rightharpoonup> tile_bound) \<Rightarrow> int \<Rightarrow> loop_vars \<times> state
     \<Rightarrow> (error \<times> state) + (loop_vars \<times> state)" where
  "convert_level rd A output_path pixel_depth max_tiles level vs_s =
     (let vs = fst vs_s; s = snd vs_s;
          uri = level_uri output_path level;
          source_axes = r_axes rd;
          source_shape = r_level_shape rd level
      in
      if pixel_depth = 1 then
        (let target_axes =
               (if arg_preserve_axes A then source_axes else canonical source_axes source_shape)
         in
         case AxesMapper source_axes target_axes of
           Inl e \<Rightarrow> Inl (e, s)
         | Inr axes_mapper \<Rightarrow>
        (let dim_names = target_axes in
         case map_shape axes_mapper source_shape of
           Inl e \<Rightarrow> Inl (e, s)
         | Inr dim_shape \<Rightarrow>
        (let attr_dtype = r_level_dtype rd level in
         case get_schema dim_names dim_shape max_tiles attr_dtype (arg_compressor A) of
           Inl e \<Rightarrow> Inl (e, s)
         | Inr schema \<Rightarrow>
        (case Array_create uri schema s of
           Inl es \<Rightarrow> Inl es
         | Inr s1 \<Rightarrow>
        (let meta_kvstore =
               \<lparr>lm_uri = uri, lm_level = level, lm_axes = dim_names, lm_shape = dim_shape\<rparr>;
             vs1 = \<lparr>lv_uris = lv_uris vs @ [uri],
                    lv_levels_meta = lv_levels_meta vs @ [meta_kvstore],
                    lv_dim_names = Some dim_names,
                    lv_attr_dtype = Some attr_dtype\<rparr>
         in
         case write_level rd axes_mapper (arg_chunked A) (arg_max_workers A) level uri s1 of
           Inl es \<Rightarrow> Inl es
         | Inr s2 \<Rightarrow> Inr (vs1, s2))))))
      else Inl (NotImplementedError, s))"

text \<open>
  \<^verbatim>\<open>for level in range(level_min, level_max)\<close>: a level whose array exists is skipped
  ("level has already been converted").
\<close>

fun convert_levels ::
  "reader \<Rightarrow> args \<Rightarrow> string \<Rightarrow> int \<Rightarrow> (char \<rightharpoonup> tile_bound) \<Rightarrow> int list \<Rightarrow> loop_vars \<times> state
     \<Rightarrow> (error \<times> state) + (loop_vars \<times> state)" where
  "convert_levels rd A output_path pixel_depth max_tiles [] vs_s = Inr vs_s"
| "convert_levels rd A output_path pixel_depth max_tiles (level # rest) vs_s =
     (if object_type (snd vs_s) (level_uri output_path level) = Some ''array''
      then convert_levels rd A output_path pixel_depth max_tiles rest vs_s
      else
        (case convert_level rd A output_path pixel_depth max_tiles level vs_s of
           Inl es \<Rightarrow> Inl es
         | Inr vs_s' \<Rightarrow> convert_levels rd A output_path pixel_depth max_tiles rest vs_s'))"

subsection \<open>Pyramid generation: \<^verbatim>\<open>_scale\<close>\<close>

text \<open>
  The loop of lines 334 to 355 over \<^verbatim>\<open>enumerate(scaler.level_shapes)\<close>. The input of the
  scaler is \<^verbatim>\<open>uris[-1] if scaler.progressive else uris[0]\<close>.
\<close>

fun scale_levels ::
  "scaler \<Rightarrow> string \<Rightarrow> string \<Rightarrow> np_dtype \<Rightarrow> (char \<rightharpoonup> tile_bound) \<Rightarrow> compressor
     \<Rightarrow> (nat \<times> int list) list \<Rightarrow> int \<Rightarrow> string list \<times> level_meta list \<times> state
     \<Rightarrow> (error \<times> state) + (string list \<times> level_meta list \<times> state)" where
  "scale_levels sc output_path dim_names attr_dtype tiles compressor [] level r = Inr r"
| "scale_levels sc output_path dim_names attr_dtype tiles compressor
       ((index, level_shape) # rest) level (uris, levels_meta, s) =
     (let uri = level_uri output_path level in
      case get_schema dim_names level_shape tiles attr_dtype compressor of
        Inl e \<Rightarrow> Inl (e, s)
      | Inr schema \<Rightarrow>
     (case Array_create uri schema s of
        Inl es \<Rightarrow> Inl es
      | Inr s1 \<Rightarrow>
     (let meta_kvstore =
            \<lparr>lm_uri = uri, lm_level = level, lm_axes = dim_names, lm_shape = level_shape\<rparr>;
          levels_meta1 = levels_meta @ [meta_kvstore]
      in
      if uris = [] then Inl (IndexError, s1)
      else
     (let base_uri = (if sc_progressive sc then last uris else hd uris) in
      case tiledb_open base_uri s1 of
        Inl es \<Rightarrow> Inl es
      | Inr base \<Rightarrow>
     (case array_meta_update uri [''level'' \<mapsto> MInt level] s1 of
        Inl es \<Rightarrow> Inl es
      | Inr s2 \<Rightarrow>
     (case tiledb_open uri s2 of
        Inl es \<Rightarrow> Inl es
      | Inr output \<Rightarrow>
     (let s3 = emit (ScalerApply base_uri uri index)
                 (put uri (Array (output\<lparr>a_cells := sc_apply sc base output index\<rparr>)) s2)
      in
      scale_levels sc output_path dim_names attr_dtype tiles compressor rest (level + 1)
        (uris @ [uri], levels_meta1, s3))))))))"

definition scale ::
  "string list \<Rightarrow> level_meta list \<Rightarrow> string \<Rightarrow> int \<Rightarrow> string \<Rightarrow> np_dtype
     \<Rightarrow> (char \<rightharpoonup> tile_bound) \<Rightarrow> compressor \<Rightarrow> pyramid_kwargs \<Rightarrow> state
     \<Rightarrow> (error \<times> state) + (string list \<times> level_meta list \<times> state)" where
  "scale uris levels_meta output_path level_min dim_names attr_dtype tiles compressor
       pyramid_kwargs s =
     (case uris of
        [] \<Rightarrow> Inl (IndexError, s)
      | uri0 # _ \<Rightarrow>
     (case tiledb_open uri0 s of
        Inl es \<Rightarrow> Inl es
      | Inr a \<Rightarrow>
     (case pyramid_kwargs (array_shape a) dim_names of
        Inl e \<Rightarrow> Inl (e, s)
      | Inr sc \<Rightarrow>
          scale_levels sc output_path dim_names attr_dtype tiles compressor
            (zip [0..<length (sc_level_shapes sc)] (sc_level_shapes sc)) (level_min + 1)
            (uris, levels_meta, s))))"

subsection \<open>The group metadata (lines 296 to 310)\<close>

text \<open>
  \<^verbatim>\<open>urlparse(uri).scheme == "tiledb"\<close> and \<^verbatim>\<open>output_path.startswith("tiledb://")\<close>.
\<close>

definition tiledb_scheme :: "string \<Rightarrow> bool" where
  "tiledb_scheme uri \<longleftrightarrow> take 7 uri = ''tiledb:''"

definition group_member :: "string \<Rightarrow> string \<times> bool" where
  "group_member uri = (if tiledb_scheme uri then (uri, False) else (basename uri, True))"

definition write_group_metadata ::
  "env \<Rightarrow> reader \<Rightarrow> string \<Rightarrow> string list \<Rightarrow> level_meta list \<Rightarrow> state
     \<Rightarrow> (error \<times> state) + state" where
  "write_group_metadata E rd output_path uris levels_meta s =
     (case st_store s output_path of
        Some (Group g) \<Rightarrow>
          Inr (put output_path
                 (Group \<lparr>g_meta = g_meta g ++ r_group_metadata rd ++
                            [''axes'' \<mapsto> MStr (r_axes rd),
                             ''pkg_version'' \<mapsto> MStr (env_version E),
                             ''fmt_version'' \<mapsto> MInt (env_FMT_VERSION E),
                             ''dataset_type'' \<mapsto> MStr (env_DATASET_TYPE E),
                             ''levels'' \<mapsto> MLevels levels_meta],
                         g_members = g_members g @ map group_member uris\<rparr>) s)
      | _ \<Rightarrow> Inl (TileDBError, s))"

subsection \<open>\<^verbatim>\<open>to_tiledb\<close>\<close>

text \<open>\<^verbatim>\<open>range(level_min, level_max)\<close> and the condition of the warning (lines 214, 215).\<close>

definition level_max_of :: "reader \<Rightarrow> args \<Rightarrow> int" where
  "level_max_of rd A =
     (if arg_pyramid_kwargs A = None then r_level_count rd else arg_level_min A + 1)"

definition level_range :: "reader \<Rightarrow> args \<Rightarrow> int list" where
  "level_range rd A = [arg_level_min A..level_max_of rd A - 1]"

definition warns :: "reader \<Rightarrow> args \<Rightarrow> bool" where
  "warns rd A \<longleftrightarrow> r_level_count rd > arg_level_min A + 1 \<and> arg_pyramid_kwargs A \<noteq> None"

definition init_vars :: loop_vars where
  "init_vars = \<lparr>lv_uris = [], lv_levels_meta = [], lv_dim_names = None, lv_attr_dtype = None\<rparr>"

text \<open>
  The class attribute \<^verbatim>\<open>_ImageReaderType\<close> is the reader to use, if any; the reader is
  given as constructed from \<^verbatim>\<open>input_path\<close> and \<^verbatim>\<open>reader_kwargs\<close>. On an exception the
  result carries the state in which it was raised: nothing is rolled back.
\<close>

definition to_tiledb ::
  "env \<Rightarrow> reader option \<Rightarrow> string \<Rightarrow> args \<Rightarrow> state \<Rightarrow> (error \<times> state) + state" where
  "to_tiledb E ImageReaderType output_path A s =
     (case ImageReaderType of
        None \<Rightarrow> Inl (NotImplementedError, s)
      | Some rd \<Rightarrow>
     (case (if object_type s output_path \<noteq> Some ''group'' then group_create output_path s
            else Inr s) of
        Inl es \<Rightarrow> Inl es
      | Inr s1 \<Rightarrow>
     (let pixel_depth = env_get_pixel_depth E (arg_compressor A);
          max_tiles = make_max_tiles (arg_tiles A) pixel_depth;
          s2 = (if warns rd A then emit Warn s1 else s1)
      in
      case convert_levels rd A output_path pixel_depth max_tiles (level_range rd A)
             (init_vars, s2) of
        Inl es \<Rightarrow> Inl es
      | Inr (vs, s3) \<Rightarrow>
     (case (case arg_pyramid_kwargs A of
              None \<Rightarrow> Inr (lv_uris vs, lv_levels_meta vs, s3)
            | Some pyramid_kwargs \<Rightarrow>
                (case lv_dim_names vs of
                   None \<Rightarrow> Inl (UnboundLocalError, s3)
                 | Some dim_names \<Rightarrow>
                (case lv_attr_dtype vs of
                   None \<Rightarrow> Inl (UnboundLocalError, s3)
                 | Some attr_dtype \<Rightarrow>
                     scale (lv_uris vs) (lv_levels_meta vs) output_path (arg_level_min A)
                       dim_names attr_dtype max_tiles (arg_compressor A) pyramid_kwargs s3))) of
        Inl es \<Rightarrow> Inl es
      | Inr (uris, levels_meta, s4) \<Rightarrow>
     (case write_group_metadata E rd output_path uris levels_meta s4 of
        Inl es \<Rightarrow> Inl es
      | Inr s5 \<Rightarrow>
          Inr (if take 9 output_path = ''tiledb://''
               then emit (CloudRegister (basename output_path)) s5 else s5))))))"

section \<open>Export: \<^verbatim>\<open>ImageConverter.from_tiledb\<close>\<close>

text \<open>
  \<^verbatim>\<open>from_tiledb\<close> uses of the opened slide its \<^verbatim>\<open>properties\<close>, its \<^verbatim>\<open>levels\<close>,
  \<^verbatim>\<open>read_level(level, to_original_axes)\<close> and \<^verbatim>\<open>level_properties(level)\<close>. The class
  \<^verbatim>\<open>TileDBOpenSlide\<close> among the sources does not define them, so they are parameters. The
  writer receives calls; what it does with them is its own business.
\<close>

record slide =
  sl_properties :: meta
  sl_levels :: "int list"
  sl_read_level :: "int \<Rightarrow> bool \<Rightarrow> ndarray"
  sl_level_properties :: "int \<Rightarrow> meta"

datatype writer_call =
    Write_group_metadata meta
  | Write_level_image int ndarray meta

fun export_levels :: "slide \<Rightarrow> int \<Rightarrow> int list \<Rightarrow> writer_call list" where
  "export_levels sl level_min [] = []"
| "export_levels sl level_min (level # rest) =
     (if level < level_min then export_levels sl level_min rest
      else
        (let level_image = sl_read_level sl level True;
             level_metadata = sl_level_properties sl level
         in Write_level_image level level_image level_metadata
              # export_levels sl level_min rest))"

text \<open>
  \<open>has_writer\<close> says whether the class attribute \<^verbatim>\<open>_ImageWriterType\<close> is set. The result
  is the sequence of calls the writer receives, in order.
\<close>

definition from_tiledb :: "bool \<Rightarrow> slide \<Rightarrow> int \<Rightarrow> error + writer_call list" where
  "from_tiledb has_writer sl level_min =
     (if \<not> has_writer then Inl NotImplementedError
      else Inr (Write_group_metadata (sl_properties sl)
                  # export_levels sl level_min (sl_levels sl)))"

section \<open>Notions used in the statements\<close>

text \<open>
  The tile policy in the words of the specification: \<open>choose_tile\<close> "returns
  \<open>min(extent, requested_max_tiles[dimension_name])\<close>; an unset dimension defaults to a
  fixed per-kind default (unit tile for T/Z, full-extent tile for C, 1024 for Y/X)".
  A dimension of another name that is not set has no tile.
\<close>

definition spec_choose_tile :: "char \<Rightarrow> int \<Rightarrow> (char \<rightharpoonup> tile_bound) \<Rightarrow> int option" where
  "spec_choose_tile dimension_name extent requested_max_tiles =
     (case requested_max_tiles dimension_name of
        Some (Fin m) \<Rightarrow> Some (min extent m)
      | Some Inf \<Rightarrow> Some extent
      | None \<Rightarrow>
          if dimension_name = CHR ''T'' \<or> dimension_name = CHR ''Z'' then Some (min extent 1)
          else if dimension_name = CHR ''C'' then Some extent
          else if dimension_name = CHR ''Y'' \<or> dimension_name = CHR ''X''
          then Some (min extent 1024)
          else None)"

text \<open>The state in which a run ends, with or without an exception.\<close>

definition end_state :: "(error \<times> state) + state \<Rightarrow> state" where
  "end_state r = (case r of Inl es \<Rightarrow> snd es | Inr s \<Rightarrow> s)"

text \<open>The same for the loops, whose results carry more than the state.\<close>

definition final :: "('a \<Rightarrow> state) \<Rightarrow> (error \<times> state) + 'a \<Rightarrow> state" where
  "final f r = (case r of Inl es \<Rightarrow> snd es | Inr x \<Rightarrow> f x)"

text \<open>
  The kind of the object at each location of the store and, for an array, its schema.
\<close>

definition kinds :: "state \<Rightarrow> string \<Rightarrow> array_schema option option" where
  "kinds s u =
     (case st_store s u of
        None \<Rightarrow> None
      | Some (Group g) \<Rightarrow> Some None
      | Some (Array a) \<Rightarrow> Some (Some (a_schema a)))"

text \<open>
  Two relations between the store before and after a piece of a run. \<open>writes_array uri\<close>:
  nothing changed but, at most, the metadata and the cells of the array at \<open>uri\<close>.
  \<open>grows P\<close>: every array that existed is as it was, every group is still a group, and
  every array that is new has a schema that satisfies \<open>P\<close>.
\<close>

definition writes_array :: "string \<Rightarrow> state \<Rightarrow> state \<Rightarrow> bool" where
  "writes_array uri s s' \<longleftrightarrow>
     kinds s' = kinds s \<and> (st_store s')(uri := None) = (st_store s)(uri := None)"

definition grows :: "(array_schema \<Rightarrow> bool) \<Rightarrow> state \<Rightarrow> state \<Rightarrow> bool" where
  "grows P s s' \<longleftrightarrow>
     (\<forall>u. (\<forall>a. st_store s u = Some (Array a) \<longrightarrow> st_store s' u = Some (Array a)) \<and>
          (\<forall>g. st_store s u = Some (Group g) \<longrightarrow> (\<exists>g'. st_store s' u = Some (Group g'))) \<and>
          (st_store s u = None \<longrightarrow>
             (\<forall>a'. st_store s' u = Some (Array a') \<longrightarrow> P (a_schema a'))))"

text \<open>The schemas that \<^verbatim>\<open>_get_schema\<close> can build from given maximum tiles.\<close>

definition built_with :: "(char \<rightharpoonup> tile_bound) \<Rightarrow> compressor \<Rightarrow> array_schema \<Rightarrow> bool" where
  "built_with max_tiles compressor schema \<longleftrightarrow>
     (\<exists>dim_names dim_shape attr_dtype.
        get_schema dim_names dim_shape max_tiles attr_dtype compressor = Inr schema)"

text \<open>The target axes of a level (lines 230 to 233).\<close>

definition target_axes_of :: "reader \<Rightarrow> args \<Rightarrow> int \<Rightarrow> string" where
  "target_axes_of rd A level =
     (if arg_preserve_axes A then r_axes rd else canonical (r_axes rd) (r_level_shape rd level))"

text \<open>The stages of \<^verbatim>\<open>to_tiledb\<close>, named: the group (lines 201, 202), the state in which
  the loop starts, and the pyramid stage (lines 283 to 294).\<close>

definition group_stage :: "string \<Rightarrow> state \<Rightarrow> (error \<times> state) + state" where
  "group_stage output_path s =
     (if object_type s output_path \<noteq> Some ''group'' then group_create output_path s
      else Inr s)"

definition pyramid_stage ::
  "args \<Rightarrow> string \<Rightarrow> (char \<rightharpoonup> tile_bound) \<Rightarrow> loop_vars \<Rightarrow> state
     \<Rightarrow> (error \<times> state) + (string list \<times> level_meta list \<times> state)" where
  "pyramid_stage A output_path max_tiles vs s3 =
     (case arg_pyramid_kwargs A of
        None \<Rightarrow> Inr (lv_uris vs, lv_levels_meta vs, s3)
      | Some pyramid_kwargs \<Rightarrow>
          (case lv_dim_names vs of
             None \<Rightarrow> Inl (UnboundLocalError, s3)
           | Some dim_names \<Rightarrow>
          (case lv_attr_dtype vs of
             None \<Rightarrow> Inl (UnboundLocalError, s3)
           | Some attr_dtype \<Rightarrow>
               scale (lv_uris vs) (lv_levels_meta vs) output_path (arg_level_min A)
                 dim_names attr_dtype max_tiles (arg_compressor A) pyramid_kwargs s3)))"

text \<open>What a run raised, if anything; a cell of a stored array; the \<^verbatim>\<open>levels\<close> entry of a
  group's metadata.\<close>

definition error_of :: "(error \<times> state) + state \<Rightarrow> error option" where
  "error_of r = (case r of Inl es \<Rightarrow> Some (fst es) | Inr s \<Rightarrow> None)"

definition cell_at :: "state \<Rightarrow> string \<Rightarrow> int list \<Rightarrow> pixel option" where
  "cell_at s uri idx = (case st_store s uri of Some (Array a) \<Rightarrow> a_cells a idx | _ \<Rightarrow> None)"

definition group_levels :: "state \<Rightarrow> string \<Rightarrow> level_meta list option" where
  "group_levels s uri =
     (case st_store s uri of
        Some (Group g) \<Rightarrow>
          (case g_meta g ''levels'' of Some (MLevels ls) \<Rightarrow> Some ls | _ \<Rightarrow> None)
      | _ \<Rightarrow> None)"

subsection \<open>A small image\<close>

text \<open>
  A source image with axes XY and two levels, of shapes 2 by 3 and 2 by 1, whose pixel at
  \<open>(x, y)\<close> of a level is \<open>100 * level + 10 * x + y\<close>; a region of a level is read as
  the cells of the level at the offsets of the region.
\<close>

definition ex_pixel :: "int \<Rightarrow> int list \<Rightarrow> pixel" where
  "ex_pixel level idx = 100 * level + 10 * (idx ! 0) + idx ! 1"

definition ex_shape :: "int \<Rightarrow> int list" where
  "ex_shape level = (if level = 0 then [2, 3] else [2, 1])"

definition ex_level_image :: "(int \<Rightarrow> int list) \<Rightarrow> int \<Rightarrow> tile option \<Rightarrow> ndarray" where
  "ex_level_image shape level tile =
     (case tile of
        None \<Rightarrow> \<lparr>nd_shape = shape level, nd_data = ex_pixel level\<rparr>
      | Some t \<Rightarrow>
          \<lparr>nd_shape = tile_shape t,
           nd_data = (\<lambda>idx. ex_pixel level (map (\<lambda>(i, sl). i + fst sl) (zip idx t)))\<rparr>)"

definition ex_reader :: reader where
  "ex_reader =
     \<lparr>r_axes = ''XY'', r_level_count = 2, r_level_shape = ex_shape,
      r_level_dtype = (\<lambda>level. UInt8),
      r_level_image = ex_level_image ex_shape,
      r_level_metadata = (\<lambda>level. Map.empty),
      r_group_metadata = Map.empty\<rparr>"

text \<open>
  Two readers of the same image that break at level 1: the first delivers an image of
  the wrong shape, so that the write into the array of level 1 fails; the second reports
  a shape with one entry too few, so that the level fails before its array is created.
\<close>

definition ex_reader_bad_image :: reader where
  "ex_reader_bad_image =
     ex_reader\<lparr>r_level_image :=
       ex_level_image (\<lambda>level. if level = 0 then [2, 3] else [5, 5])\<rparr>"

definition ex_reader_bad_shape :: reader where
  "ex_reader_bad_shape =
     ex_reader\<lparr>r_level_shape := (\<lambda>level. if level = 0 then [2, 3] else [2])\<rparr>"

definition ex_env :: env where
  "ex_env =
     \<lparr>env_get_pixel_depth = (\<lambda>c. if c = ''webp'' then 3 else 1),
      env_version = ''0.1'', env_FMT_VERSION = 1, env_DATASET_TYPE = ''bioimg''\<rparr>"

definition ex_args :: args where
  "ex_args =
     \<lparr>arg_level_min = 0, arg_tiles = [CHR ''X'' \<mapsto> Fin 2, CHR ''Y'' \<mapsto> Fin 1],
      arg_preserve_axes = False, arg_chunked = False, arg_max_workers = 0,
      arg_compressor = ''zstd'', arg_pyramid_kwargs = None\<rparr>"

definition ex_empty :: state where
  "ex_empty = \<lparr>st_store = Map.empty, st_log = []\<rparr>"

text \<open>
  The events that a piece of a run appended to the log, and the relation "the log grew
  by events that all satisfy \<open>Q\<close>".
\<close>

definition new_events :: "state \<Rightarrow> state \<Rightarrow> event list" where
  "new_events s s' = drop (length (st_log s)) (st_log s')"

definition emits :: "(event \<Rightarrow> bool) \<Rightarrow> state \<Rightarrow> state \<Rightarrow> bool" where
  "emits Q s s' \<longleftrightarrow> (\<exists>es. st_log s' = st_log s @ es \<and> (\<forall>e \<in> set es. Q e))"

text \<open>
  The events of the conversion of one level into the array at \<open>uri\<close>. \<open>tiled\<close> says
  whether the level is written tile by tile.
\<close>

fun level_event :: "bool \<Rightarrow> int \<Rightarrow> int \<Rightarrow> string \<Rightarrow> event \<Rightarrow> bool" where
  "level_event tiled max_workers level uri (ReadLevelImage l t) =
     (l = level \<and> (t = None \<longleftrightarrow> \<not> tiled))"
| "level_event tiled max_workers level uri (WriteAll u) = (u = uri \<and> \<not> tiled)"
| "level_event tiled max_workers level uri (WriteTile u t) = (u = uri \<and> tiled)"
| "level_event tiled max_workers level uri (PoolCreate n) = (n = max_workers \<and> 0 < n)"
| "level_event tiled max_workers level uri PoolShutdown = (0 < max_workers)"
| "level_event tiled max_workers level uri Warn = False"
| "level_event tiled max_workers level uri (ScalerApply b u i) = False"
| "level_event tiled max_workers level uri (CloudRegister n) = False"

definition levels_event :: "args \<Rightarrow> string \<Rightarrow> int list \<Rightarrow> event \<Rightarrow> bool" where
  "levels_event A output_path levels e \<longleftrightarrow>
     (\<exists>l \<in> set levels.
        level_event (arg_chunked A \<or> arg_max_workers A \<noteq> 0) (arg_max_workers A) l
          (level_uri output_path l) e)"

fun is_scaler_apply :: "event \<Rightarrow> bool" where
  "is_scaler_apply (ScalerApply b u i) = True"
| "is_scaler_apply _ = False"



text \<open>The events of a whole run.\<close>

definition run_event :: "reader \<Rightarrow> args \<Rightarrow> string \<Rightarrow> event \<Rightarrow> bool" where
  "run_event rd A output_path e \<longleftrightarrow>
     (e = Warn \<and> warns rd A) \<or>
     levels_event A output_path (level_range rd A) e \<or>
     (is_scaler_apply e \<and> arg_pyramid_kwargs A \<noteq> None) \<or>
     e = CloudRegister (basename output_path)"



subsection \<open>The contract of a reader, and runs that differ in the log only\<close>




text \<open>
  Two states with the same store: they differ in the log at most.
\<close>

definition same_store :: "state \<Rightarrow> state \<Rightarrow> bool" where
  "same_store s t \<longleftrightarrow> st_store s = st_store t"

text \<open>
  Two results agree: both are the same exception, raised in states with the same store,
  or both are values that \<open>R\<close> relates.
\<close>

definition agree ::
  "('a \<Rightarrow> 'a \<Rightarrow> bool) \<Rightarrow> (error \<times> state) + 'a \<Rightarrow> (error \<times> state) + 'a \<Rightarrow> bool" where
  "agree R r r' \<longleftrightarrow>
     (case r of
        Inl es \<Rightarrow> (case r' of Inl es' \<Rightarrow> fst es = fst es' \<and> same_store (snd es) (snd es')
                              | Inr y \<Rightarrow> False)
      | Inr x \<Rightarrow> (case r' of Inl es' \<Rightarrow> False | Inr y \<Rightarrow> R x y))"

section \<open>Properties of the schema policy\<close>

lemma np_prod_word_of_int: "np_prod xs = word_of_int (prod_list xs)"
  by (induction xs) (simp_all add: np_prod_def)

lemma sint_np_prod:
  assumes "0 \<le> prod_list xs" and "prod_list xs < 2 ^ 63"
  shows "sint (np_prod xs) = prod_list xs"
proof -
  have "sint (word_of_int (prod_list xs) :: 64 word) = signed_take_bit 63 (prod_list xs)"
    by (simp add: signed_of_int)
  also have "\<dots> = prod_list xs"
    using assms by (intro signed_take_bit_int_eq_self) simp_all
  finally show ?thesis by (simp add: np_prod_word_of_int)
qed

lemma get_schema_dims_type:
  "get_schema_dims zs max_tiles dt = Inr ds \<Longrightarrow> d \<in> set ds \<Longrightarrow> dim_type d = dt"
  by (induction zs arbitrary: ds)
     (auto simp: tiledb_Dim_def split: option.splits sum.splits if_splits)

lemma get_schema_dims_length:
  "get_schema_dims zs max_tiles dt = Inr ds \<Longrightarrow> length ds = length zs"
  by (induction zs arbitrary: ds)
     (auto simp: tiledb_Dim_def split: option.splits sum.splits if_splits)

text \<open>
  What a successful \<^verbatim>\<open>_get_schema\<close> built at each position: the domain \<open>(0, dim_size - 1)\<close>,
  the tile \<open>min(dim_size, max_tiles[dim_name])\<close>, both at least 1.
\<close>

lemma get_schema_dims_nth:
  "get_schema_dims zs max_tiles dt = Inr ds \<Longrightarrow> k < length zs \<Longrightarrow>
   \<exists>mt. max_tiles (fst (zs ! k)) = Some mt \<and>
     ds ! k = \<lparr>dim_name = fst (zs ! k), dim_lo = 0, dim_hi = snd (zs ! k) - 1,
               dim_tile = py_min (snd (zs ! k)) mt, dim_type = dt\<rparr>
     \<and> 1 \<le> snd (zs ! k) \<and> 1 \<le> py_min (snd (zs ! k)) mt"
proof (induction zs arbitrary: ds k)
  case Nil
  then show ?case by simp
next
  case (Cons z zs)
  obtain n sz where z: "z = (n, sz)" by (cases z)
  from Cons.prems(1) z obtain mt d ds' where
    mt: "max_tiles n = Some mt" and
    d: "tiledb_Dim n (0, sz - 1) (py_min sz mt) dt = Inr d" and
    ds': "get_schema_dims zs max_tiles dt = Inr ds'" and
    ds: "ds = d # ds'"
    by (auto split: option.splits sum.splits)
  show ?case
  proof (cases k)
    case 0
    with z mt d ds show ?thesis
      by (auto simp: tiledb_Dim_def split: if_splits)
  next
    case (Suc j)
    with Cons.prems(2) have "j < length zs" by simp
    from Cons.IH [OF ds' this] Suc ds show ?thesis by simp
  qed
qed

lemma get_schema_Inr:
  assumes "get_schema dim_names dim_shape max_tiles attr_dtype compressor = Inr schema"
  shows "length dim_names = length dim_shape"
    and "get_schema_dims (zip dim_names dim_shape) max_tiles (index_dtype dim_shape)
           = Inr (sch_dims schema)"
  using assms by (auto simp: get_schema_def Let_def split: if_splits sum.splits)

lemma get_schema_extents_positive:
  assumes "get_schema dim_names dim_shape max_tiles attr_dtype compressor = Inr schema"
      and "n \<in> set dim_shape"
  shows "1 \<le> n"
proof -
  from assms(2) obtain k where k: "k < length dim_shape" and n: "dim_shape ! k = n"
    by (auto simp: in_set_conv_nth)
  from get_schema_Inr [OF assms(1)] k
  have len: "k < length (zip dim_names dim_shape)" by simp
  from get_schema_dims_nth [OF get_schema_Inr(2) [OF assms(1)] len] k n
    get_schema_Inr(1) [OF assms(1)]
  show ?thesis by auto
qed

lemma prod_list_pos: "(\<And>n. n \<in> set xs \<Longrightarrow> (1::int) \<le> n) \<Longrightarrow> 1 \<le> prod_list xs"
proof (induction xs)
  case Nil
  then show ?case by simp
next
  case (Cons x xs)
  have "1 \<le> x" and "1 \<le> prod_list xs"
    using Cons by simp_all
  then have "1 * 1 \<le> x * prod_list xs"
    by (intro mult_mono) simp_all
  then show ?case by simp
qed

lemma min_scalar_type_smallest:
  assumes "0 \<le> sint w"
  shows "is_unsigned (min_scalar_type w) \<and> sint w \<le> dtype_max (min_scalar_type w) \<and>
         (\<forall>t. is_unsigned t \<and> sint w \<le> dtype_max t
              \<longrightarrow> dtype_bits (min_scalar_type w) \<le> dtype_bits t)"
proof -
  have bound: "sint w \<le> 18446744073709551615"
    using sint_lt [of w] by simp
  have small: "\<And>t. is_unsigned t \<Longrightarrow> sint w \<le> dtype_max t
                 \<Longrightarrow> dtype_bits (min_scalar_type w) \<le> dtype_bits t"
    subgoal for t
      using assms by (cases t) (simp_all add: min_scalar_type_def Let_def)
    done
  from assms bound small show ?thesis
    by (auto simp: min_scalar_type_def Let_def)
qed

text \<open>
  C1 (as amended). Whenever the product of the extents stays below \<open>2^63\<close>, every
  dimension of a schema built by \<^verbatim>\<open>_get_schema\<close> has as index type the narrowest of the
  unsigned 8, 16, 32 and 64 bit types whose range covers the total cell count itself (the
  product of all extents), not the count minus one; and \<^verbatim>\<open>_get_schema\<close> never raises
  \<open>SchemaOverflowError\<close>: it has no overflow check.
\<close>

theorem get_schema_index_dtype_covers_cell_count:
  assumes "prod_list dim_shape < 2 ^ 63"
  shows "case get_schema dim_names dim_shape max_tiles attr_dtype compressor of
           Inl e \<Rightarrow> e \<noteq> SchemaOverflowError
         | Inr schema \<Rightarrow>
             (\<forall>d \<in> set (sch_dims schema).
                is_unsigned (dim_type d) \<and>
                prod_list dim_shape \<le> dtype_max (dim_type d) \<and>
                (\<forall>t. is_unsigned t \<and> prod_list dim_shape \<le> dtype_max t
                     \<longrightarrow> dtype_bits (dim_type d) \<le> dtype_bits t))"
proof (cases "get_schema dim_names dim_shape max_tiles attr_dtype compressor")
  case (Inl e)
  have "get_schema_dims zs max_tiles dt \<noteq> Inl SchemaOverflowError" for zs dt
    by (induction zs) (auto simp: tiledb_Dim_def split: option.splits sum.splits if_splits)
  with Inl show ?thesis
    by (auto simp: get_schema_def Let_def split: if_splits sum.splits)
next
  case (Inr schema)
  have pos: "1 \<le> prod_list dim_shape"
    by (rule prod_list_pos) (rule get_schema_extents_positive [OF Inr])
  then have sint: "sint (np_prod dim_shape) = prod_list dim_shape"
    using assms by (intro sint_np_prod) simp_all
  have "dim_type d = min_scalar_type (np_prod dim_shape)" if d: "d \<in> set (sch_dims schema)" for d
  proof -
    from d have "sch_dims schema \<noteq> []" by auto
    with get_schema_dims_length [OF get_schema_Inr(2) [OF Inr]]
    have "dim_shape \<noteq> []" by auto
    with get_schema_dims_type [OF get_schema_Inr(2) [OF Inr] d]
    show ?thesis by (simp add: index_dtype_def)
  qed
  moreover have "0 \<le> sint (np_prod dim_shape)"
    using pos sint by simp
  ultimately show ?thesis
    using min_scalar_type_smallest [of "np_prod dim_shape"] sint Inr by simp
qed

theorem get_schema_index_dtype_covers_cell_count_witness:
  "get_schema ''YX'' [16, 16] (make_max_tiles Map.empty 1) UInt8 ''zstd''
     = Inr \<lparr>sch_dims =
              [\<lparr>dim_name = CHR ''Y'', dim_lo = 0, dim_hi = 15, dim_tile = 16, dim_type = UInt16\<rparr>,
               \<lparr>dim_name = CHR ''X'', dim_lo = 0, dim_hi = 15, dim_tile = 16, dim_type = UInt16\<rparr>],
            sch_attr_dtype = UInt8, sch_filters = [''zstd'']\<rparr>
   \<and> prod_list [16, 16 :: int] \<le> dtype_max UInt16
   \<and> \<not> prod_list [16, 16 :: int] \<le> dtype_max UInt8"
  using get_schema_index_dtype_covers_cell_count
          [of "[16, 16]" "''YX''" "make_max_tiles Map.empty 1" UInt8 "''zstd''"]
  by (simp add: get_schema_def index_dtype_def min_scalar_type_def np_prod_def
        make_max_tiles_def DEFAULT_TILES_def tiledb_Dim_def)

text \<open>
  C1 as stated fails: for a count of 256 cells the code chooses the 16 bit type, while the
  narrowest unsigned type whose range covers \<open>256 - 1\<close> is the 8 bit type.
\<close>

theorem index_dtype_not_count_minus_one:
  "get_schema ''X'' [256] (make_max_tiles Map.empty 1) UInt8 ''zstd''
     = Inr \<lparr>sch_dims =
              [\<lparr>dim_name = CHR ''X'', dim_lo = 0, dim_hi = 255, dim_tile = 256,
                 dim_type = UInt16\<rparr>],
            sch_attr_dtype = UInt8, sch_filters = [''zstd'']\<rparr>
   \<and> spec_choose_index_dtype (prod_list [256]) = Inr UInt8"
  by (simp add: get_schema_def index_dtype_def min_scalar_type_def np_prod_def
        make_max_tiles_def DEFAULT_TILES_def tiledb_Dim_def spec_choose_index_dtype_def)

section \<open>Frames: what a run leaves alone\<close>

lemma st_emit [simp]: "st_store (emit e s) = st_store s" "st_log (emit e s) = st_log s @ [e]"
  by (simp_all add: emit_def)

lemma st_put [simp]: "st_store (put u ob s) = (st_store s)(u \<mapsto> ob)" "st_log (put u ob s) = st_log s"
  by (simp_all add: put_def)

lemma final_simps [simp]: "final f (Inl (e, s)) = s" "final f (Inr x) = f x"
  by (simp_all add: final_def)

lemma end_state_simps [simp]: "end_state (Inl (e, s)) = s" "end_state (Inr s) = s"
  by (simp_all add: end_state_def)

lemma kinds_emit [simp]: "kinds (emit e s) = kinds s"
  by (rule ext) (simp add: kinds_def)

lemma kinds_put_array:
  "st_store s u = Some (Array a) \<Longrightarrow> a_schema a' = a_schema a \<Longrightarrow> kinds (put u (Array a') s) = kinds s"
  by (rule ext) (simp add: kinds_def)

lemma writes_array_setitem:
  "setitem uri t img s = Inr s' \<Longrightarrow> writes_array uri s s'"
  "setitem uri t img s = Inl (e, s') \<Longrightarrow> writes_array uri s s'"
  by (auto simp: setitem_def writes_array_def kinds_put_array split: option.splits obj.splits if_splits)

lemma writes_array_meta_update:
  "array_meta_update uri m s = Inr s' \<Longrightarrow> writes_array uri s s'"
  "array_meta_update uri m s = Inl (e, s') \<Longrightarrow> writes_array uri s s'"
  by (auto simp: array_meta_update_def writes_array_def kinds_put_array split: option.splits obj.splits)

lemma writes_array_tile_to_tiledb:
  "tile_to_tiledb rd am level uri t s = Inr s' \<Longrightarrow> writes_array uri s s'"
  "tile_to_tiledb rd am level uri t s = Inl (e, s') \<Longrightarrow> writes_array uri s s'"
  by (auto simp: tile_to_tiledb_def Let_def writes_array_def split: sum.splits dest!: writes_array_setitem)

lemma writes_array_map_tiles:
  assumes "\<And>t s s'. f t s = Inr s' \<Longrightarrow> writes_array uri s s'"
      and "\<And>t s e s'. f t s = Inl (e, s') \<Longrightarrow> writes_array uri s s'"
  shows "map_tiles f ts s = Inr s' \<Longrightarrow> writes_array uri s s'"
    and "map_tiles f ts s = Inl (e, s') \<Longrightarrow> writes_array uri s s'"
proof (induction ts arbitrary: s)
  case Nil
  { case 1 then show ?case by (simp add: writes_array_def) }
  { case 2 then show ?case by simp }
next
  case (Cons t ts)
  { case 1
    then show ?case
      using assms(1) Cons.IH(1) by (fastforce simp: writes_array_def split: sum.splits) }
  { case 2
    then show ?case
      using assms Cons.IH(2) by (fastforce simp: writes_array_def split: sum.splits) }
qed

lemma tiledb_open_Inl: "tiledb_open uri s = Inl (e, s') \<Longrightarrow> s' = s"
  by (auto simp: tiledb_open_def split: option.splits obj.splits)

lemma tiledb_open_Inr: "tiledb_open uri s = Inr a \<Longrightarrow> st_store s uri = Some (Array a)"
  by (auto simp: tiledb_open_def split: option.splits obj.splits)

lemma writes_array_map_tile_to_tiledb:
  "map_tiles (tile_to_tiledb rd am level uri) ts s = Inr s' \<Longrightarrow> writes_array uri s s'"
  "map_tiles (tile_to_tiledb rd am level uri) ts s = Inl (e, s') \<Longrightarrow> writes_array uri s s'"
  by (erule writes_array_map_tiles [rotated 2]; erule writes_array_tile_to_tiledb)+

lemma writes_array_write_level:
  "write_level rd am chunked mw level uri s = Inr s' \<Longrightarrow> writes_array uri s s'"
  "write_level rd am chunked mw level uri s = Inl (e, s') \<Longrightarrow> writes_array uri s s'"
   by (auto simp: write_level_def Let_def writes_array_def split: sum.splits if_splits
        dest!: writes_array_setitem writes_array_meta_update writes_array_map_tile_to_tiledb tiledb_open_Inl)


lemma grows_refl [simp]: "grows P s s"
  by (simp add: grows_def)

lemma grows_trans:
  assumes "grows P s s'" and "grows P s' s''"
  shows "grows P s s''"
  unfolding grows_def
proof (intro allI conjI impI)
  fix u a
  assume "st_store s u = Some (Array a)"
  with assms show "st_store s'' u = Some (Array a)"
    by (simp add: grows_def)
next
  fix u g
  assume "st_store s u = Some (Group g)"
  with assms(1) obtain g' where "st_store s' u = Some (Group g')"
    unfolding grows_def by blast
  with assms(2) show "\<exists>g''. st_store s'' u = Some (Group g'')"
    unfolding grows_def by blast
next
  fix u a''
  assume none: "st_store s u = None" and a'': "st_store s'' u = Some (Array a'')"
  show "P (a_schema a'')"
  proof (cases "st_store s' u")
    case None
    with assms(2) a'' show ?thesis unfolding grows_def by blast
  next
    case (Some ob)
    show ?thesis
    proof (cases ob)
      case (Group g')
      with Some assms(2) obtain g'' where "st_store s'' u = Some (Group g'')"
        unfolding grows_def by blast
      with a'' show ?thesis by simp
    next
      case (Array a')
      with Some assms(2) have "st_store s'' u = Some (Array a')"
        unfolding grows_def by blast
      with a'' have "a'' = a'" by simp
      with Array Some none assms(1) show ?thesis
        unfolding grows_def by blast
    qed
  qed
qed

lemma grows_mono: "grows P s s' \<Longrightarrow> (\<And>x. P x \<Longrightarrow> Q x) \<Longrightarrow> grows Q s s'"
  unfolding grows_def by blast

lemma grows_emit [simp]:
  "grows P s (emit e s') = grows P s s'"
  "grows P (emit e s) s' = grows P s s'"
  by (simp_all add: grows_def)

lemma Array_create_Inl: "Array_create uri schema s = Inl (e, s') \<Longrightarrow> s' = s"
  by (auto simp: Array_create_def split: option.splits)

lemma Array_create_Inr:
  "Array_create uri schema s = Inr s' \<Longrightarrow>
     st_store s uri = None \<and>
     s' = put uri (Array \<lparr>a_schema = schema, a_meta = Map.empty, a_cells = Map.empty\<rparr>) s"
  by (auto simp: Array_create_def split: option.splits)

lemma grows_create_then_write:
  assumes "Array_create uri schema s = Inr s1" and "writes_array uri s1 s'" and "P schema"
  shows "grows P s s'"
proof -
  from Array_create_Inr [OF assms(1)] have none: "st_store s uri = None"
    and s1: "st_store s1 = (st_store s)(uri \<mapsto> Array \<lparr>a_schema = schema, a_meta = Map.empty, a_cells = Map.empty\<rparr>)"
    by simp_all
  from assms(2) have k: "kinds s' = kinds s1"
    and o: "(st_store s')(uri := None) = (st_store s1)(uri := None)"
    by (simp_all add: writes_array_def)
  have other: "st_store s' u = st_store s u" if "u \<noteq> uri" for u
    using fun_cong [OF o, of u] s1 that by simp
  have "kinds s' uri = Some (Some schema)"
    using k s1 by (simp add: kinds_def)
  then have new: "\<exists>a'. st_store s' uri = Some (Array a') \<and> a_schema a' = schema"
    by (auto simp: kinds_def split: option.splits obj.splits)
  show ?thesis
    unfolding grows_def
  proof (intro allI)
    fix u
    show "(\<forall>a. st_store s u = Some (Array a) \<longrightarrow> st_store s' u = Some (Array a)) \<and>
          (\<forall>g. st_store s u = Some (Group g) \<longrightarrow> (\<exists>g'. st_store s' u = Some (Group g'))) \<and>
          (st_store s u = None \<longrightarrow> (\<forall>a'. st_store s' u = Some (Array a') \<longrightarrow> P (a_schema a')))"
    proof (cases "u = uri")
      case True
      with none new assms(3) show ?thesis by auto
    next
      case False
      with other [OF False] show ?thesis by auto
    qed
  qed
qed

lemma convert_level_Inr:
  assumes "convert_level rd A output_path pixel_depth max_tiles level (vs, s) = Inr (vs', s')"
  obtains axes_mapper dim_shape schema s1 where
    "pixel_depth = 1"
    "AxesMapper (r_axes rd) (target_axes_of rd A level) = Inr axes_mapper"
    "map_shape axes_mapper (r_level_shape rd level) = Inr dim_shape"
    "get_schema (target_axes_of rd A level) dim_shape max_tiles (r_level_dtype rd level)
       (arg_compressor A) = Inr schema"
    "Array_create (level_uri output_path level) schema s = Inr s1"
    "write_level rd axes_mapper (arg_chunked A) (arg_max_workers A) level
       (level_uri output_path level) s1 = Inr s'"
    "vs' = \<lparr>lv_uris = lv_uris vs @ [level_uri output_path level],
            lv_levels_meta = lv_levels_meta vs @
              [\<lparr>lm_uri = level_uri output_path level, lm_level = level,
                lm_axes = target_axes_of rd A level, lm_shape = dim_shape\<rparr>],
            lv_dim_names = Some (target_axes_of rd A level),
            lv_attr_dtype = Some (r_level_dtype rd level)\<rparr>"
  using assms unfolding convert_level_def target_axes_of_def
  by (simp add: Let_def split: if_splits sum.splits)


lemma convert_level_Inl:
  assumes "convert_level rd A output_path pixel_depth max_tiles level (vs, s) = Inl (e, s')"
  obtains "s' = s"
  | axes_mapper dim_shape schema s1 where
    "pixel_depth = 1"
    "get_schema (target_axes_of rd A level) dim_shape max_tiles (r_level_dtype rd level)
       (arg_compressor A) = Inr schema"
    "Array_create (level_uri output_path level) schema s = Inr s1"
    "write_level rd axes_mapper (arg_chunked A) (arg_max_workers A) level
       (level_uri output_path level) s1 = Inl (e, s')"
  using assms unfolding convert_level_def target_axes_of_def
  by (simp add: Let_def split: if_splits sum.splits) (auto dest: Array_create_Inl)

lemma grows_convert_level:
  "convert_level rd A output_path pixel_depth max_tiles level (vs, s) = Inr (vs', s')
     \<Longrightarrow> grows (built_with max_tiles (arg_compressor A)) s s'"
  "convert_level rd A output_path pixel_depth max_tiles level (vs, s) = Inl (e, s')
     \<Longrightarrow> grows (built_with max_tiles (arg_compressor A)) s s'"
proof -
  assume "convert_level rd A output_path pixel_depth max_tiles level (vs, s) = Inr (vs', s')"
  then show "grows (built_with max_tiles (arg_compressor A)) s s'"
  proof (rule convert_level_Inr)
    fix axes_mapper dim_shape schema s1
    assume "get_schema (target_axes_of rd A level) dim_shape max_tiles (r_level_dtype rd level)
       (arg_compressor A) = Inr schema"
      and "Array_create (level_uri output_path level) schema s = Inr s1"
      and "write_level rd axes_mapper (arg_chunked A) (arg_max_workers A) level
       (level_uri output_path level) s1 = Inr s'"
    then show ?thesis
      by (intro grows_create_then_write [of _ schema s _ s'])
         (auto simp: built_with_def dest: writes_array_write_level)
  qed
next
  assume "convert_level rd A output_path pixel_depth max_tiles level (vs, s) = Inl (e, s')"
  then show "grows (built_with max_tiles (arg_compressor A)) s s'"
  proof (rule convert_level_Inl)
    assume "s' = s"
    then show ?thesis by simp
  next
    fix axes_mapper dim_shape schema s1
    assume "get_schema (target_axes_of rd A level) dim_shape max_tiles (r_level_dtype rd level)
       (arg_compressor A) = Inr schema"
      and "Array_create (level_uri output_path level) schema s = Inr s1"
      and "write_level rd axes_mapper (arg_chunked A) (arg_max_workers A) level
       (level_uri output_path level) s1 = Inl (e, s')"
    then show ?thesis
      by (intro grows_create_then_write [of _ schema s _ s'])
         (auto simp: built_with_def dest: writes_array_write_level)
  qed
qed

lemma grows_convert_levels:
  "convert_levels rd A output_path pixel_depth max_tiles ls (vs, s) = Inr (vs', s')
     \<Longrightarrow> grows (built_with max_tiles (arg_compressor A)) s s'"
  "convert_levels rd A output_path pixel_depth max_tiles ls (vs, s) = Inl (e, s')
     \<Longrightarrow> grows (built_with max_tiles (arg_compressor A)) s s'"
proof (induction ls arbitrary: vs s)
  case Nil
  { case 1 then show ?case by simp }
  { case 2 then show ?case by simp }
next
  case (Cons l ls)
  { case 1
    show ?case
    proof (cases "object_type s (level_uri output_path l) = Some ''array''")
      case True
      with 1 Cons.IH(1) show ?thesis by simp
    next
      case False
      with 1 obtain vs1 s1 where
        step: "convert_level rd A output_path pixel_depth max_tiles l (vs, s) = Inr (vs1, s1)"
        and rest: "convert_levels rd A output_path pixel_depth max_tiles ls (vs1, s1) = Inr (vs', s')"
        by (auto split: sum.splits)
      from grows_convert_level(1) [OF step] Cons.IH(1) [OF rest] show ?thesis
        by (rule grows_trans)
    qed }
  { case 2
    show ?case
    proof (cases "object_type s (level_uri output_path l) = Some ''array''")
      case True
      with 2 Cons.IH(2) show ?thesis by simp
    next
      case False
      show ?thesis
      proof (cases "convert_level rd A output_path pixel_depth max_tiles l (vs, s)")
        case (Inl es)
        with False 2 have "convert_level rd A output_path pixel_depth max_tiles l (vs, s) = Inl (e, s')"
          by simp
        then show ?thesis by (rule grows_convert_level(2))
      next
        case (Inr vs_s1)
        obtain vs1 s1 where vs_s1: "vs_s1 = (vs1, s1)" by (cases vs_s1)
        with Inr False 2 have
          rest: "convert_levels rd A output_path pixel_depth max_tiles ls (vs1, s1) = Inl (e, s')"
          by simp
        from grows_convert_level(1) [OF Inr [unfolded vs_s1]] Cons.IH(2) [OF rest]
        show ?thesis by (rule grows_trans)
      qed
    qed }
qed

text \<open>With a packed pixel format no level is converted: the loop skips or raises.\<close>

lemma convert_levels_packed:
  assumes "pixel_depth \<noteq> 1"
  shows "convert_levels rd A output_path pixel_depth max_tiles ls (vs, s) =
           (if \<forall>l \<in> set ls. object_type s (level_uri output_path l) = Some ''array''
            then Inr (vs, s) else Inl (NotImplementedError, s))"
  using assms by (induction ls) (simp_all add: convert_level_def Let_def)

lemma kinds_array: "kinds s u = Some (Some schema) \<longleftrightarrow> (\<exists>a. st_store s u = Some (Array a) \<and> a_schema a = schema)"
  by (auto simp: kinds_def split: option.splits obj.splits)

lemma object_type_kinds:
  "object_type s u = Some ''array'' \<longleftrightarrow> (\<exists>schema. kinds s u = Some (Some schema))"
  by (auto simp: kinds_def object_type_def split: option.splits obj.splits)

lemma grows_array: "grows P s s' \<Longrightarrow> object_type s u = Some ''array'' \<Longrightarrow> object_type s' u = Some ''array''"
  by (auto simp: grows_def object_type_def split: option.splits obj.splits)

lemma convert_level_creates:
  assumes "convert_level rd A output_path pixel_depth max_tiles level (vs, s) = Inr (vs', s')"
  shows "object_type s' (level_uri output_path level) = Some ''array''"
  using assms
proof (rule convert_level_Inr)
  fix axes_mapper dim_shape schema s1
  assume c: "Array_create (level_uri output_path level) schema s = Inr s1"
    and w: "write_level rd axes_mapper (arg_chunked A) (arg_max_workers A) level
       (level_uri output_path level) s1 = Inr s'"
  from Array_create_Inr [OF c] have "kinds s1 (level_uri output_path level) = Some (Some schema)"
    by (simp add: kinds_def)
  with writes_array_write_level(1) [OF w] show ?thesis
    by (simp add: writes_array_def object_type_kinds)
qed

lemma convert_levels_all_arrays:
  "convert_levels rd A output_path pixel_depth max_tiles ls (vs, s) = Inr (vs', s')
     \<Longrightarrow> l \<in> set ls \<Longrightarrow> object_type s' (level_uri output_path l) = Some ''array''"
proof (induction ls arbitrary: vs s)
  case Nil
  then show ?case by simp
next
  case (Cons k ls)
  show ?case
  proof (cases "object_type s (level_uri output_path k) = Some ''array''")
    case True
    with Cons.prems(1)
    have rest: "convert_levels rd A output_path pixel_depth max_tiles ls (vs, s) = Inr (vs', s')"
      by simp
    show ?thesis
    proof (cases "l = k")
      case True
      with \<open>object_type s (level_uri output_path k) = Some ''array''\<close>
        grows_convert_levels(1) [OF rest] show ?thesis
        by (auto intro: grows_array)
    next
      case False
      with Cons.prems(2) have "l \<in> set ls" by simp
      with Cons.IH [OF rest] show ?thesis by simp
    qed
  next
    case False
    with Cons.prems(1) obtain vs1 s1 where
      step: "convert_level rd A output_path pixel_depth max_tiles k (vs, s) = Inr (vs1, s1)"
      and rest: "convert_levels rd A output_path pixel_depth max_tiles ls (vs1, s1) = Inr (vs', s')"
      by (auto split: sum.splits)
    show ?thesis
    proof (cases "l = k")
      case True
      with convert_level_creates [OF step] grows_convert_levels(1) [OF rest] show ?thesis
        by (auto intro: grows_array)
    next
      case False
      with Cons.prems(2) have "l \<in> set ls" by simp
      with Cons.IH [OF rest] show ?thesis by simp
    qed
  qed
qed

lemma built_withI:
  "get_schema dim_names dim_shape max_tiles attr_dtype compressor = Inr schema
     \<Longrightarrow> built_with max_tiles compressor schema"
  unfolding built_with_def by blast

lemma setitem_log:
  "setitem uri t img s = Inr s' \<Longrightarrow> st_log s' = st_log s"
  "setitem uri t img s = Inl (e, s') \<Longrightarrow> st_log s' = st_log s"
  by (auto simp: setitem_def split: option.splits obj.splits if_splits)

lemma array_meta_update_log:
  "array_meta_update uri m s = Inr s' \<Longrightarrow> st_log s' = st_log s"
  "array_meta_update uri m s = Inl (e, s') \<Longrightarrow> st_log s' = st_log s"
  by (auto simp: array_meta_update_def split: option.splits obj.splits)

text \<open>One pass of the loop of \<^verbatim>\<open>_scale\<close>, taken apart.\<close>

lemma scale_levels_step:
  assumes "scale_levels sc output_path dim_names attr_dtype tiles compressor
             ((index, level_shape) # rest) level (uris, levels_meta, s) = r"
  obtains
    (fail_early) e where "r = Inl (e, s)"
  | (fail_late) e schema s1 s' where
      "get_schema dim_names level_shape tiles attr_dtype compressor = Inr schema"
      "Array_create (level_uri output_path level) schema s = Inr s1"
      "writes_array (level_uri output_path level) s1 s'"
      "st_log s' = st_log s"
      "r = Inl (e, s')"
  | (continue) schema s1 s3 where
      "get_schema dim_names level_shape tiles attr_dtype compressor = Inr schema"
      "Array_create (level_uri output_path level) schema s = Inr s1"
      "writes_array (level_uri output_path level) s1 s3"
      "uris \<noteq> []"
      "st_log s3 = st_log s @
         [ScalerApply (if sc_progressive sc then last uris else hd uris)
            (level_uri output_path level) index]"
      "r = scale_levels sc output_path dim_names attr_dtype tiles compressor rest (level + 1)
             (uris @ [level_uri output_path level],
              levels_meta @ [\<lparr>lm_uri = level_uri output_path level, lm_level = level,
                               lm_axes = dim_names, lm_shape = level_shape\<rparr>], s3)"
proof (cases "get_schema dim_names level_shape tiles attr_dtype compressor")
  case (Inl e)
  with assms have "r = Inl (e, s)" by simp
  then show ?thesis by (rule fail_early)
next
  case schema: (Inr schema)
  show ?thesis
  proof (cases "Array_create (level_uri output_path level) schema s")
    case (Inl es)
    then obtain e where "es = (e, s)"
      by (cases es) (auto dest: Array_create_Inl)
    with Inl schema assms have "r = Inl (e, s)" by simp
    then show ?thesis by (rule fail_early)
  next
    case s1: (Inr s1)
    have log1: "st_log s1 = st_log s"
      using Array_create_Inr [OF s1] by simp
    show ?thesis
    proof (cases "uris = []")
      case True
      with schema s1 assms have "r = Inl (IndexError, s1)" by (simp add: Let_def)
      with schema s1 log1 show ?thesis
        by (intro fail_late [of schema s1 s1 IndexError]) (simp_all add: writes_array_def)
    next
      case uris: False
      let ?base_uri = "if sc_progressive sc then last uris else hd uris"
      let ?uri = "level_uri output_path level"
      show ?thesis
      proof (cases "tiledb_open ?base_uri s1")
        case (Inl es)
        then obtain e where "es = (e, s1)"
          by (cases es) (auto dest: tiledb_open_Inl)
        with Inl schema s1 uris assms have "r = Inl (e, s1)" by (simp add: Let_def)
        with schema s1 log1 show ?thesis
          by (intro fail_late [of schema s1 s1 e]) (simp_all add: writes_array_def)
      next
        case base: (Inr base)
        show ?thesis
        proof (cases "array_meta_update ?uri [''level'' \<mapsto> MInt level] s1")
          case (Inl es)
          obtain e s' where es: "es = (e, s')" by (cases es)
          with Inl schema s1 uris base assms have "r = Inl (e, s')" by (simp add: Let_def)
          with schema s1 log1 writes_array_meta_update(2) [OF Inl [unfolded es]]
            array_meta_update_log(2) [OF Inl [unfolded es]] show ?thesis
            by (intro fail_late [of schema s1 s' e]) simp_all
        next
          case s2: (Inr s2)
          have w2: "writes_array ?uri s1 s2"
            by (rule writes_array_meta_update(1) [OF s2])
          have log2: "st_log s2 = st_log s1"
            by (rule array_meta_update_log(1) [OF s2])
          show ?thesis
          proof (cases "tiledb_open ?uri s2")
            case (Inl es)
            then obtain e where "es = (e, s2)"
              by (cases es) (auto dest: tiledb_open_Inl)
            with Inl schema s1 uris base s2 assms have "r = Inl (e, s2)" by (simp add: Let_def)
            with schema s1 w2 log1 log2 show ?thesis
              by (intro fail_late [of schema s1 s2 e]) simp_all
          next
            case out_arr: (Inr out_arr)
            let ?s3 = "emit (ScalerApply ?base_uri ?uri index)
                 (put ?uri (Array (out_arr\<lparr>a_cells := sc_apply sc base out_arr index\<rparr>)) s2)"
            have "kinds ?s3 = kinds s2"
              using tiledb_open_Inr [OF out_arr] by (simp add: kinds_put_array)
            with w2 have w3: "writes_array ?uri s1 ?s3"
              by (simp add: writes_array_def)
            have log3: "st_log ?s3 = st_log s @ [ScalerApply ?base_uri ?uri index]"
              using log1 log2 by simp
            from schema s1 uris base s2 out_arr assms
            have "r = scale_levels sc output_path dim_names attr_dtype tiles compressor rest
                        (level + 1)
                        (uris @ [?uri],
                         levels_meta @ [\<lparr>lm_uri = ?uri, lm_level = level,
                               lm_axes = dim_names, lm_shape = level_shape\<rparr>], ?s3)"
              by (simp add: Let_def)
            with schema s1 w3 uris log3 show ?thesis
              by (intro continue [of schema s1 ?s3]) simp_all
          qed
        qed
      qed
    qed
  qed
qed

lemma grows_scale_levels:
  "grows (built_with tiles compressor) s
     (final (\<lambda>r. snd (snd r))
        (scale_levels sc output_path dim_names attr_dtype tiles compressor shapes level
           (uris, levels_meta, s)))"
proof (induction shapes arbitrary: level uris levels_meta s)
  case Nil
  show ?case by simp
next
  case (Cons ish shapes)
  obtain index level_shape where ish: "ish = (index, level_shape)" by (cases ish)
  define r where "r = scale_levels sc output_path dim_names attr_dtype tiles compressor
           ((index, level_shape) # shapes) level (uris, levels_meta, s)"
  have "grows (built_with tiles compressor) s (final (\<lambda>r. snd (snd r)) r)"
    using r_def [symmetric]
  proof (cases rule: scale_levels_step)
    case (fail_early e)
    then show ?thesis by simp
  next
    case (fail_late e schema s1 s')
    then show ?thesis
      by (auto intro!: grows_create_then_write [of _ schema s s1 s'] built_withI)
  next
    case (continue schema s1 s3)
    then have "grows (built_with tiles compressor) s s3"
      by (auto intro!: grows_create_then_write [of _ schema s s1 s3] built_withI)
    from grows_trans [OF this Cons.IH] continue(6) show ?thesis by simp
  qed
  with ish r_def show ?case by simp
qed

lemma grows_scale:
  "grows (built_with tiles compressor) s
     (final (\<lambda>r. snd (snd r))
        (scale uris levels_meta output_path level_min dim_names attr_dtype tiles compressor
           pyramid_kwargs s))"
  using grows_scale_levels
  by (auto simp: scale_def split: list.splits sum.splits dest: tiledb_open_Inl)

lemma grows_group_create:
  "group_create uri s = Inr s' \<Longrightarrow> grows P s s'"
  "group_create uri s = Inl (e, s') \<Longrightarrow> grows P s s'"
  by (auto simp: group_create_def grows_def split: option.splits if_splits)

lemma grows_write_group_metadata:
  "write_group_metadata E rd output_path uris levels_meta s = Inr s' \<Longrightarrow> grows P s s'"
  "write_group_metadata E rd output_path uris levels_meta s = Inl (e, s') \<Longrightarrow> grows P s s'"
  by (auto simp: write_group_metadata_def grows_def split: option.splits obj.splits if_splits)

text \<open>The run of \<^verbatim>\<open>to_tiledb\<close>, taken apart into its stages.\<close>

lemma to_tiledb_stages:
  "to_tiledb E R output_path A s =
     (case R of
        None \<Rightarrow> Inl (NotImplementedError, s)
      | Some rd \<Rightarrow>
     (case group_stage output_path s of
        Inl es \<Rightarrow> Inl es
      | Inr s1 \<Rightarrow>
     (case convert_levels rd A output_path (env_get_pixel_depth E (arg_compressor A))
             (make_max_tiles (arg_tiles A) (env_get_pixel_depth E (arg_compressor A)))
             (level_range rd A) (init_vars, if warns rd A then emit Warn s1 else s1) of
        Inl es \<Rightarrow> Inl es
      | Inr (vs, s3) \<Rightarrow>
     (case pyramid_stage A output_path
             (make_max_tiles (arg_tiles A) (env_get_pixel_depth E (arg_compressor A))) vs s3 of
        Inl es \<Rightarrow> Inl es
      | Inr (uris, levels_meta, s4) \<Rightarrow>
     (case write_group_metadata E rd output_path uris levels_meta s4 of
        Inl es \<Rightarrow> Inl es
      | Inr s5 \<Rightarrow>
          Inr (if take 9 output_path = ''tiledb://''
               then emit (CloudRegister (basename output_path)) s5 else s5))))))"
  by (simp only: to_tiledb_def group_stage_def pyramid_stage_def Let_def)

lemma to_tiledb_cases:
  assumes "to_tiledb E R output_path A s = r"
  obtains
    (no_reader) "R = None" "r = Inl (NotImplementedError, s)"
  | (group_fail) rd e s' where
      "R = Some rd" "group_stage output_path s = Inl (e, s')" "r = Inl (e, s')"
  | (levels_fail) rd s1 e s' where
      "R = Some rd" "group_stage output_path s = Inr s1"
      "convert_levels rd A output_path (env_get_pixel_depth E (arg_compressor A))
         (make_max_tiles (arg_tiles A) (env_get_pixel_depth E (arg_compressor A)))
         (level_range rd A) (init_vars, if warns rd A then emit Warn s1 else s1) = Inl (e, s')"
      "r = Inl (e, s')"
  | (pyramid_fail) rd s1 vs s3 e s' where
      "R = Some rd" "group_stage output_path s = Inr s1"
      "convert_levels rd A output_path (env_get_pixel_depth E (arg_compressor A))
         (make_max_tiles (arg_tiles A) (env_get_pixel_depth E (arg_compressor A)))
         (level_range rd A) (init_vars, if warns rd A then emit Warn s1 else s1) = Inr (vs, s3)"
      "pyramid_stage A output_path
         (make_max_tiles (arg_tiles A) (env_get_pixel_depth E (arg_compressor A))) vs s3
         = Inl (e, s')"
      "r = Inl (e, s')"
  | (metadata_fail) rd s1 vs s3 uris levels_meta s4 e s' where
      "R = Some rd" "group_stage output_path s = Inr s1"
      "convert_levels rd A output_path (env_get_pixel_depth E (arg_compressor A))
         (make_max_tiles (arg_tiles A) (env_get_pixel_depth E (arg_compressor A)))
         (level_range rd A) (init_vars, if warns rd A then emit Warn s1 else s1) = Inr (vs, s3)"
      "pyramid_stage A output_path
         (make_max_tiles (arg_tiles A) (env_get_pixel_depth E (arg_compressor A))) vs s3
         = Inr (uris, levels_meta, s4)"
      "write_group_metadata E rd output_path uris levels_meta s4 = Inl (e, s')"
      "r = Inl (e, s')"
  | (success) rd s1 vs s3 uris levels_meta s4 s5 where
      "R = Some rd" "group_stage output_path s = Inr s1"
      "convert_levels rd A output_path (env_get_pixel_depth E (arg_compressor A))
         (make_max_tiles (arg_tiles A) (env_get_pixel_depth E (arg_compressor A)))
         (level_range rd A) (init_vars, if warns rd A then emit Warn s1 else s1) = Inr (vs, s3)"
      "pyramid_stage A output_path
         (make_max_tiles (arg_tiles A) (env_get_pixel_depth E (arg_compressor A))) vs s3
         = Inr (uris, levels_meta, s4)"
      "write_group_metadata E rd output_path uris levels_meta s4 = Inr s5"
      "r = Inr (if take 9 output_path = ''tiledb://''
                then emit (CloudRegister (basename output_path)) s5 else s5)"
proof (cases R)
  case None
  with assms have "r = Inl (NotImplementedError, s)" by (simp add: to_tiledb_def)
  with None show ?thesis by (rule no_reader)
next
  case (Some rd)
  let ?pd = "env_get_pixel_depth E (arg_compressor A)"
  let ?mt = "make_max_tiles (arg_tiles A) ?pd"
  show ?thesis
  proof (cases "group_stage output_path s")
    case (Inl es)
    obtain e s' where es: "es = (e, s')" by (cases es)
    with Inl Some assms have "r = Inl (e, s')"
      by (simp add: to_tiledb_def group_stage_def)
    with Some Inl es show ?thesis by (intro group_fail [of rd e s']) simp_all
  next
    case s1: (Inr s1)
    let ?s2 = "if warns rd A then emit Warn s1 else s1"
    have r1: "r = (case convert_levels rd A output_path ?pd ?mt (level_range rd A) (init_vars, ?s2) of
                 Inl es \<Rightarrow> Inl es
               | Inr (vs, s3) \<Rightarrow>
                  (case pyramid_stage A output_path ?mt vs s3 of
                     Inl es \<Rightarrow> Inl es
                   | Inr (uris, levels_meta, s4) \<Rightarrow>
                      (case write_group_metadata E rd output_path uris levels_meta s4 of
                         Inl es \<Rightarrow> Inl es
                       | Inr s5 \<Rightarrow>
                           Inr (if take 9 output_path = ''tiledb://''
                                then emit (CloudRegister (basename output_path)) s5 else s5))))"
      unfolding assms [symmetric] Some to_tiledb_stages
      using s1 by simp
    show ?thesis
    proof (cases "convert_levels rd A output_path ?pd ?mt (level_range rd A) (init_vars, ?s2)")
      case (Inl es)
      obtain e s' where es: "es = (e, s')" by (cases es)
      with Inl r1 have "r = Inl (e, s')" by simp
      with Some s1 Inl es show ?thesis by (intro levels_fail [of rd s1 e s']) simp_all
    next
      case (Inr vs_s3)
      obtain vs s3 where vs_s3: "vs_s3 = (vs, s3)" by (cases vs_s3)
      note conv = Inr [unfolded vs_s3]
      show ?thesis
      proof (cases "pyramid_stage A output_path ?mt vs s3")
        case (Inl es)
        obtain e s' where es: "es = (e, s')" by (cases es)
        with Inl r1 conv have "r = Inl (e, s')" by simp
        with Some s1 conv Inl es show ?thesis
          by (intro pyramid_fail [of rd s1 vs s3 e s']) simp_all
      next
        case (Inr p)
        obtain uris levels_meta s4 where p: "p = (uris, levels_meta, s4)" by (cases p)
        note pyr = Inr [unfolded p]
        show ?thesis
        proof (cases "write_group_metadata E rd output_path uris levels_meta s4")
          case (Inl es)
          obtain e s' where es: "es = (e, s')" by (cases es)
          with Inl r1 conv pyr have "r = Inl (e, s')" by simp
          with Some s1 conv pyr Inl es show ?thesis
            by (intro metadata_fail [of rd s1 vs s3 uris levels_meta s4 e s']) simp_all
        next
          case (Inr s5)
          with r1 conv pyr
          have "r = Inr (if take 9 output_path = ''tiledb://''
                then emit (CloudRegister (basename output_path)) s5 else s5)" by simp
          with Some s1 conv pyr Inr show ?thesis
            by (intro success [of rd s1 vs s3 uris levels_meta s4 s5]) simp_all
        qed
      qed
    qed
  qed
qed

lemma grows_group_stage:
  "group_stage output_path s = Inr s' \<Longrightarrow> grows P s s'"
  "group_stage output_path s = Inl (e, s') \<Longrightarrow> grows P s s'"
  by (auto simp: group_stage_def split: if_splits dest: grows_group_create)

lemma grows_pyramid_stage:
  "pyramid_stage A output_path max_tiles vs s = Inr (uris, levels_meta, s')
     \<Longrightarrow> grows (built_with max_tiles (arg_compressor A)) s s'"
  "pyramid_stage A output_path max_tiles vs s = Inl (e, s')
     \<Longrightarrow> grows (built_with max_tiles (arg_compressor A)) s s'"
proof -
  have *: "grows (built_with max_tiles (arg_compressor A)) s
             (final (\<lambda>r. snd (snd r)) (pyramid_stage A output_path max_tiles vs s))"
    using grows_scale by (simp add: pyramid_stage_def split: option.splits)
  show "pyramid_stage A output_path max_tiles vs s = Inr (uris, levels_meta, s')
     \<Longrightarrow> grows (built_with max_tiles (arg_compressor A)) s s'"
    using * by simp
  show "pyramid_stage A output_path max_tiles vs s = Inl (e, s')
     \<Longrightarrow> grows (built_with max_tiles (arg_compressor A)) s s'"
    using * by simp
qed

text \<open>
  Every run, whether it ends with an exception or not: the arrays that existed are
  untouched, and a new array has a schema built by \<^verbatim>\<open>_get_schema\<close> from the maximum
  tiles that \<^verbatim>\<open>to_tiledb\<close> computed.
\<close>

lemma grows_to_tiledb:
  "grows (built_with (make_max_tiles (arg_tiles A) (env_get_pixel_depth E (arg_compressor A)))
            (arg_compressor A))
     s (end_state (to_tiledb E R output_path A s))"
proof -
  let ?P = "built_with (make_max_tiles (arg_tiles A) (env_get_pixel_depth E (arg_compressor A)))
            (arg_compressor A)"
  define r where "r = to_tiledb E R output_path A s"
  have "grows ?P s (end_state r)"
    using r_def [symmetric]
  proof (cases rule: to_tiledb_cases)
    case no_reader
    then show ?thesis by simp
  next
    case (group_fail rd e s')
    with grows_group_stage(2) [of output_path s e s' ?P] show ?thesis by simp
  next
    case (levels_fail rd s1 e s')
    have "grows ?P s s1" by (rule grows_group_stage(1)) fact
    moreover have "grows ?P s1 s'"
      using grows_convert_levels(2) [OF levels_fail(3)] by (simp split: if_splits)
    ultimately show ?thesis using levels_fail(4) by (auto intro: grows_trans)
  next
    case (pyramid_fail rd s1 vs s3 e s')
    have "grows ?P s s1" by (rule grows_group_stage(1)) fact
    moreover have "grows ?P s1 s3"
      using grows_convert_levels(1) [OF pyramid_fail(3)] by (simp split: if_splits)
    moreover have "grows ?P s3 s'" by (rule grows_pyramid_stage(2)) fact
    ultimately show ?thesis using pyramid_fail(5) by (auto intro: grows_trans)
  next
    case (metadata_fail rd s1 vs s3 uris levels_meta s4 e s')
    have "grows ?P s s1" by (rule grows_group_stage(1)) fact
    moreover have "grows ?P s1 s3"
      using grows_convert_levels(1) [OF metadata_fail(3)] by (simp split: if_splits)
    moreover have "grows ?P s3 s4" by (rule grows_pyramid_stage(1)) fact
    moreover have "grows ?P s4 s'" by (rule grows_write_group_metadata(2)) fact
    ultimately show ?thesis using metadata_fail(6) by (auto intro: grows_trans)
  next
    case (success rd s1 vs s3 uris levels_meta s4 s5)
    have "grows ?P s s1" by (rule grows_group_stage(1)) fact
    moreover have "grows ?P s1 s3"
      using grows_convert_levels(1) [OF success(3)] by (simp split: if_splits)
    moreover have "grows ?P s3 s4" by (rule grows_pyramid_stage(1)) fact
    moreover have "grows ?P s4 s5" by (rule grows_write_group_metadata(1)) fact
    ultimately have "grows ?P s s5" by (auto intro: grows_trans)
    with success(6) show ?thesis by simp
  qed
  then show ?thesis by (simp add: r_def)
qed

section \<open>Properties of \<^verbatim>\<open>to_tiledb\<close>\<close>

lemma make_max_tiles_one: "make_max_tiles tiles 1 = DEFAULT_TILES ++ tiles"
proof -
  have "tile_times t 1 = t" for t
    by (cases t) simp_all
  then show ?thesis
    by (auto simp: make_max_tiles_def Let_def map_upd_triv split: option.splits)
qed

lemma built_with_tile_policy:
  assumes "built_with (make_max_tiles tiles 1) compressor schema"
      and "d \<in> set (sch_dims schema)"
  shows "Some (dim_tile d) = spec_choose_tile (dim_name d) (dim_extent d) tiles"
proof -
  from assms(1) obtain dim_names dim_shape attr_dtype where
    g: "get_schema dim_names dim_shape (DEFAULT_TILES ++ tiles) attr_dtype compressor = Inr schema"
    by (auto simp: built_with_def make_max_tiles_one)
  note dims = get_schema_Inr(2) [OF g]
  from assms(2) obtain k where k: "k < length (sch_dims schema)" and d: "sch_dims schema ! k = d"
    by (auto simp: in_set_conv_nth)
  from k get_schema_dims_length [OF dims]
  have k': "k < length (zip dim_names dim_shape)" by simp
  define name where "name = fst (zip dim_names dim_shape ! k)"
  define dim_size where "dim_size = snd (zip dim_names dim_shape ! k)"
  from get_schema_dims_nth [OF dims k'] obtain mt where
    all: "(DEFAULT_TILES ++ tiles) (fst (zip dim_names dim_shape ! k)) = Some mt \<and>
     sch_dims schema ! k =
       \<lparr>dim_name = fst (zip dim_names dim_shape ! k), dim_lo = 0,
        dim_hi = snd (zip dim_names dim_shape ! k) - 1,
        dim_tile = py_min (snd (zip dim_names dim_shape ! k)) mt,
        dim_type = index_dtype dim_shape\<rparr>
     \<and> 1 \<le> snd (zip dim_names dim_shape ! k)
     \<and> 1 \<le> py_min (snd (zip dim_names dim_shape ! k)) mt" ..
  from all have
    mt: "(DEFAULT_TILES ++ tiles) name = Some mt" and
    nth: "sch_dims schema ! k = \<lparr>dim_name = name, dim_lo = 0, dim_hi = dim_size - 1,
              dim_tile = py_min dim_size mt, dim_type = index_dtype dim_shape\<rparr>"
    by (simp_all add: name_def dim_size_def)
  from d nth have
    d': "d = \<lparr>dim_name = name, dim_lo = 0, dim_hi = dim_size - 1,
              dim_tile = py_min dim_size mt, dim_type = index_dtype dim_shape\<rparr>"
    by simp
  have ext: "dim_extent d = dim_size" and nm: "dim_name d = name"
    and tl: "dim_tile d = py_min dim_size mt"
    by (simp_all add: d' dim_extent_def)
  show ?thesis
  proof (cases "tiles name")
    case (Some t)
    with mt have "mt = t" by (simp add: map_add_def)
    with Some show ?thesis
      by (cases t) (auto simp: ext nm tl spec_choose_tile_def)
  next
    case None
    with mt have "DEFAULT_TILES name = Some mt" by (simp add: map_add_def)
    with None show ?thesis
      by (auto simp: ext nm tl spec_choose_tile_def DEFAULT_TILES_def split: if_splits)
  qed
qed

text \<open>With a packed pixel format a run creates no array at all.\<close>

lemma grows_to_tiledb_packed:
  assumes "env_get_pixel_depth E (arg_compressor A) \<noteq> 1"
  shows "grows (\<lambda>schema. False) s (end_state (to_tiledb E R output_path A s))"
proof -
  let ?P = "\<lambda>schema :: array_schema. False"
  note packed = convert_levels_packed [OF assms]
  define r where "r = to_tiledb E R output_path A s"
  have "grows ?P s (end_state r)"
    using r_def [symmetric]
  proof (cases rule: to_tiledb_cases)
    case no_reader
    then show ?thesis by simp
  next
    case (group_fail rd e s')
    with grows_group_stage(2) [of output_path s e s' ?P] show ?thesis by simp
  next
    case (levels_fail rd s1 e s')
    have "grows ?P s s1" by (rule grows_group_stage(1)) fact
    moreover from levels_fail(3) have "st_store s' = st_store s1"
      unfolding packed by (auto split: if_splits)
    ultimately show ?thesis using levels_fail(4) by (simp add: grows_def)
  next
    case (pyramid_fail rd s1 vs s3 e s')
    have "grows ?P s s1" by (rule grows_group_stage(1)) fact
    moreover from pyramid_fail(3) have "st_store s3 = st_store s1" and "vs = init_vars"
      unfolding packed by (auto split: if_splits)
    moreover from pyramid_fail(4) \<open>vs = init_vars\<close> have "s' = s3"
      by (auto simp: pyramid_stage_def init_vars_def split: option.splits)
    ultimately show ?thesis using pyramid_fail(5) by (simp add: grows_def)
  next
    case (metadata_fail rd s1 vs s3 uris levels_meta s4 e s')
    have "grows ?P s s1" by (rule grows_group_stage(1)) fact
    moreover from metadata_fail(3) have "st_store s3 = st_store s1" and "vs = init_vars"
      unfolding packed by (auto split: if_splits)
    moreover from metadata_fail(4) \<open>vs = init_vars\<close> have "s4 = s3"
      by (auto simp: pyramid_stage_def init_vars_def split: option.splits)
    ultimately have "grows ?P s s4" by (simp add: grows_def)
    moreover have "grows ?P s4 s'" by (rule grows_write_group_metadata(2)) fact
    ultimately show ?thesis using metadata_fail(6) by (auto intro: grows_trans)
  next
    case (success rd s1 vs s3 uris levels_meta s4 s5)
    have "grows ?P s s1" by (rule grows_group_stage(1)) fact
    moreover from success(3) have "st_store s3 = st_store s1" and "vs = init_vars"
      unfolding packed by (auto split: if_splits)
    moreover from success(4) \<open>vs = init_vars\<close> have "s4 = s3"
      by (auto simp: pyramid_stage_def init_vars_def split: option.splits)
    ultimately have "grows ?P s s4" by (simp add: grows_def)
    moreover have "grows ?P s4 s5" by (rule grows_write_group_metadata(1)) fact
    ultimately have "grows ?P s s5" by (auto intro: grows_trans)
    with success(6) show ?thesis by simp
  qed
  then show ?thesis by (simp add: r_def)
qed

text \<open>
  C2. Every dimension of every array that a run of \<^verbatim>\<open>to_tiledb\<close> creates (an array at a
  location where the store had nothing before the run) has as tile the minimum of its
  extent and the requested maximum tile of its name, where a name that is not requested has
  the default of its kind: 1 for T and Z, the whole extent for C, 1024 for Y and X.
\<close>

theorem to_tiledb_tile_policy:
  assumes "kinds s uri = None"
      and "kinds (end_state (to_tiledb E R output_path A s)) uri = Some (Some schema)"
      and "d \<in> set (sch_dims schema)"
  shows "Some (dim_tile d) = spec_choose_tile (dim_name d) (dim_extent d) (arg_tiles A)"
proof -
  from assms(1) have none: "st_store s uri = None"
    by (simp add: kinds_def split: option.splits obj.splits)
  from assms(2) obtain a where
    a: "st_store (end_state (to_tiledb E R output_path A s)) uri = Some (Array a)"
    and schema: "a_schema a = schema"
    by (auto simp: kinds_array)
  show ?thesis
  proof (cases "env_get_pixel_depth E (arg_compressor A) = 1")
    case True
    from grows_to_tiledb [of A E s R output_path] none a True
    have "built_with (make_max_tiles (arg_tiles A) 1) (arg_compressor A) (a_schema a)"
      unfolding grows_def by auto
    then show ?thesis using assms(3) unfolding schema by (rule built_with_tile_policy)
  next
    case False
    from grows_to_tiledb_packed [OF False, of s R output_path] none a
    show ?thesis unfolding grows_def by auto
  qed
qed

theorem to_tiledb_tile_policy_witness:
  "kinds ex_empty ''out/l_0.tdb'' = None \<and>
   kinds (end_state (to_tiledb ex_env (Some ex_reader) ''out'' ex_args ex_empty)) ''out/l_0.tdb''
     = Some (Some \<lparr>sch_dims =
         [\<lparr>dim_name = CHR ''Y'', dim_lo = 0, dim_hi = 2, dim_tile = 1, dim_type = UInt8\<rparr>,
          \<lparr>dim_name = CHR ''X'', dim_lo = 0, dim_hi = 1, dim_tile = 2, dim_type = UInt8\<rparr>],
         sch_attr_dtype = UInt8, sch_filters = [''zstd'']\<rparr>) \<and>
   spec_choose_tile (CHR ''Y'') 3 (arg_tiles ex_args) = Some 1"
proof -
  let ?d = "\<lparr>dim_name = CHR ''Y'', dim_lo = 0, dim_hi = 2, dim_tile = 1, dim_type = UInt8\<rparr>"
  let ?schema = "\<lparr>sch_dims =
         [?d, \<lparr>dim_name = CHR ''X'', dim_lo = 0, dim_hi = 1, dim_tile = 2, dim_type = UInt8\<rparr>],
         sch_attr_dtype = UInt8, sch_filters = [''zstd'']\<rparr>"
  have h1: "kinds ex_empty ''out/l_0.tdb'' = None"
    by code_simp
  have h2: "kinds (end_state (to_tiledb ex_env (Some ex_reader) ''out'' ex_args ex_empty))
              ''out/l_0.tdb'' = Some (Some ?schema)"
    by code_simp
  have h3: "?d \<in> set (sch_dims ?schema)"
    by simp
  from to_tiledb_tile_policy [OF h1 h2 h3] h1 h2 show ?thesis
    by (simp add: dim_extent_def)
qed


lemma error_of_simps [simp]:
  "error_of (Inl (e, s)) = Some e" "error_of (Inr s) = None"
  by (simp_all add: error_of_def)

text \<open>
  What the skip of line 223 does on every run, whatever its outcome: an array that exists
  before the run is the same after it. After a run that raises nothing, every level of
  the range has an array.
\<close>

theorem to_tiledb_skips_existing_arrays:
  "(\<forall>uri. object_type s uri = Some ''array'' \<longrightarrow>
      st_store (end_state (to_tiledb E R output_path A s)) uri = st_store s uri) \<and>
   (\<forall>rd l. R = Some rd \<and> error_of (to_tiledb E R output_path A s) = None \<and>
      l \<in> set (level_range rd A) \<longrightarrow>
      object_type (end_state (to_tiledb E R output_path A s)) (level_uri output_path l)
        = Some ''array'')"
proof (intro conjI allI impI)
  fix uri
  assume "object_type s uri = Some ''array''"
  then obtain a where "st_store s uri = Some (Array a)"
    by (auto simp: object_type_def split: option.splits obj.splits)
  with grows_to_tiledb [of A E s R output_path]
  show "st_store (end_state (to_tiledb E R output_path A s)) uri = st_store s uri"
    by (simp add: grows_def)
next
  fix rd l
  assume *: "R = Some rd \<and> error_of (to_tiledb E R output_path A s) = None \<and>
      l \<in> set (level_range rd A)"
  let ?P = "built_with (make_max_tiles (arg_tiles A) (env_get_pixel_depth E (arg_compressor A)))
            (arg_compressor A)"
  define r where "r = to_tiledb E R output_path A s"
  with * have ok: "error_of r = None" by auto
  have "object_type (end_state r) (level_uri output_path l) = Some ''array''"
    using r_def [symmetric]
  proof (cases rule: to_tiledb_cases)
    case (success rd' s1 vs s3 uris levels_meta s4 s5)
    with * have rd: "rd' = rd" by simp
    from convert_levels_all_arrays [OF success(3)] * rd
    have "object_type s3 (level_uri output_path l) = Some ''array''" by simp
    moreover have "grows ?P s3 s4" by (rule grows_pyramid_stage(1)) fact
    moreover have "grows ?P s4 s5" by (rule grows_write_group_metadata(1)) fact
    ultimately have "object_type s5 (level_uri output_path l) = Some ''array''"
      by (blast intro: grows_array)
    with success(6) show ?thesis by (simp add: object_type_def)
  qed (use ok in simp_all)
  then show "object_type (end_state (to_tiledb E R output_path A s)) (level_uri output_path l)
        = Some ''array''"
    by (simp add: r_def)
qed

theorem to_tiledb_skips_existing_arrays_witness:
  "object_type (end_state (to_tiledb ex_env (Some ex_reader_bad_shape) ''out'' ex_args ex_empty))
     ''out/l_0.tdb'' = Some ''array'' \<and>
   object_type (end_state (to_tiledb ex_env (Some ex_reader_bad_shape) ''out'' ex_args ex_empty))
     ''out/l_1.tdb'' = None \<and>
   st_store (end_state (to_tiledb ex_env (Some ex_reader) ''out'' ex_args
       (end_state (to_tiledb ex_env (Some ex_reader_bad_shape) ''out'' ex_args ex_empty))))
     ''out/l_0.tdb''
   = st_store (end_state (to_tiledb ex_env (Some ex_reader_bad_shape) ''out'' ex_args ex_empty))
       ''out/l_0.tdb'' \<and>
   object_type (end_state (to_tiledb ex_env (Some ex_reader) ''out'' ex_args
       (end_state (to_tiledb ex_env (Some ex_reader_bad_shape) ''out'' ex_args ex_empty))))
     (level_uri ''out'' 1) = Some ''array''"
proof -
  let ?s1 = "end_state (to_tiledb ex_env (Some ex_reader_bad_shape) ''out'' ex_args ex_empty)"
  have h1: "object_type ?s1 ''out/l_0.tdb'' = Some ''array''"
    by code_simp
  have h2: "object_type ?s1 ''out/l_1.tdb'' = None"
    by code_simp
  have h3: "error_of (to_tiledb ex_env (Some ex_reader) ''out'' ex_args ?s1) = None"
    by code_simp
  have h4: "1 \<in> set (level_range ex_reader ex_args)"
    by code_simp
  from to_tiledb_skips_existing_arrays [of ?s1 ex_env "Some ex_reader" "''out''" ex_args]
    h1 h2 h3 h4
  show ?thesis by blast
qed

text \<open>
  C3 fails on the code. A first run completes level 0 and breaks while it writes level 1,
  after the array of level 1 was created. The second run, with a reader that works, raises
  nothing and skips level 1 together with level 0, under the comment "level has already
  been converted", which is not true of level 1: its array stays as the first run left
  it, with the cell \<open>[0, 0]\<close> never written, where a complete run stores the pixel
  100. Level 0 is left untouched, as the claim says; level 1 is not regenerated.
\<close>

theorem rerun_skips_unfinished_level:
  "error_of (to_tiledb ex_env (Some ex_reader_bad_image) ''out'' ex_args ex_empty)
     = Some ValueError \<and>
   cell_at (end_state (to_tiledb ex_env (Some ex_reader_bad_image) ''out'' ex_args ex_empty))
     ''out/l_0.tdb'' [0, 0] = Some 0 \<and>
   error_of (to_tiledb ex_env (Some ex_reader) ''out'' ex_args
     (end_state (to_tiledb ex_env (Some ex_reader_bad_image) ''out'' ex_args ex_empty))) = None \<and>
   cell_at (end_state (to_tiledb ex_env (Some ex_reader) ''out'' ex_args
     (end_state (to_tiledb ex_env (Some ex_reader_bad_image) ''out'' ex_args ex_empty))))
     ''out/l_1.tdb'' [0, 0] = None \<and>
   cell_at (end_state (to_tiledb ex_env (Some ex_reader) ''out'' ex_args ex_empty))
     ''out/l_1.tdb'' [0, 0] = Some 100"
  by code_simp

text \<open>
  C4 fails on the code. A first run completes level 0 and breaks at level 1 before its
  array is created; the second run converts level 1 and raises nothing. Both levels are
  now complete, but the \<^verbatim>\<open>levels\<close> entry that the second run writes describes level 1
  only: the \<^verbatim>\<open>continue\<close> for an existing level comes before the descriptor is appended.
  A further run of a complete ingestion finds both levels and writes an empty list.
\<close>

theorem rerun_levels_metadata_omits_skipped_level:
  "error_of (to_tiledb ex_env (Some ex_reader) ''out'' ex_args
     (end_state (to_tiledb ex_env (Some ex_reader_bad_shape) ''out'' ex_args ex_empty))) = None \<and>
   group_levels (end_state (to_tiledb ex_env (Some ex_reader) ''out'' ex_args
     (end_state (to_tiledb ex_env (Some ex_reader_bad_shape) ''out'' ex_args ex_empty)))) ''out''
     = Some [\<lparr>lm_uri = ''out/l_1.tdb'', lm_level = 1, lm_axes = ''YX'', lm_shape = [1, 2]\<rparr>] \<and>
   cell_at (end_state (to_tiledb ex_env (Some ex_reader) ''out'' ex_args
     (end_state (to_tiledb ex_env (Some ex_reader_bad_shape) ''out'' ex_args ex_empty))))
     ''out/l_0.tdb'' [0, 0] = Some 0 \<and>
   group_levels (end_state (to_tiledb ex_env (Some ex_reader) ''out'' ex_args
     (end_state (to_tiledb ex_env (Some ex_reader) ''out'' ex_args ex_empty)))) ''out''
     = Some []"
  by code_simp

lemma level_uri_longer: "length output_path < length (level_uri output_path level)"
  by (simp add: level_uri_def path_join_def)

lemma level_uri_neq: "level_uri output_path level \<noteq> output_path"
  using level_uri_longer [of output_path level] by auto

lemma group_stage_not_array:
  assumes "object_type s output_path \<noteq> Some ''array''"
  obtains s1 where "group_stage output_path s = Inr s1"
    and "\<And>u. u \<noteq> output_path \<Longrightarrow> st_store s1 u = st_store s u"
    and "st_log s1 = st_log s"
  using assms
  by (auto simp: group_stage_def group_create_def object_type_def
        split: option.splits obj.splits if_splits)

text \<open>
  C8 (as amended). With a packed pixel format (a pixel depth other than 1), a run whose
  range of levels contains a level without an array raises \<^verbatim>\<open>NotImplementedError\<close>, and
  it does so before any array is created or written: apart from the output group, which
  may have been created, the store is as it was. (When the output path holds an array the
  run fails earlier, at the creation of the group.)
\<close>

theorem packed_pixels_raise_before_any_array:
  assumes "env_get_pixel_depth E (arg_compressor A) \<noteq> 1"
      and "object_type s output_path \<noteq> Some ''array''"
      and "l \<in> set (level_range rd A)"
      and "object_type s (level_uri output_path l) \<noteq> Some ''array''"
  shows "error_of (to_tiledb E (Some rd) output_path A s) = Some NotImplementedError \<and>
         (\<forall>u. u \<noteq> output_path \<longrightarrow>
            st_store (end_state (to_tiledb E (Some rd) output_path A s)) u = st_store s u)"
proof -
  from assms(2) obtain s1 where
    s1: "group_stage output_path s = Inr s1"
    and same: "\<And>u. u \<noteq> output_path \<Longrightarrow> st_store s1 u = st_store s u"
    by (rule group_stage_not_array) blast
  define s2 where "s2 = (if warns rd A then emit Warn s1 else s1)"
  have store2: "st_store s2 = st_store s1" by (simp add: s2_def)
  have "object_type s2 (level_uri output_path l) = object_type s (level_uri output_path l)"
    using same [OF level_uri_neq] store2 by (simp add: object_type_def)
  with assms(4) have "object_type s2 (level_uri output_path l) \<noteq> Some ''array''"
    by simp
  with assms(3)
  have "\<not> (\<forall>l \<in> set (level_range rd A).
            object_type s2 (level_uri output_path l) = Some ''array'')"
    by blast
  then have "convert_levels rd A output_path (env_get_pixel_depth E (arg_compressor A))
             (make_max_tiles (arg_tiles A) (env_get_pixel_depth E (arg_compressor A)))
             (level_range rd A) (init_vars, s2) = Inl (NotImplementedError, s2)"
    unfolding convert_levels_packed [OF assms(1)] by (simp only: if_False)
  then have "to_tiledb E (Some rd) output_path A s = Inl (NotImplementedError, s2)"
    unfolding to_tiledb_stages using s1 by (simp add: s2_def [symmetric])
  with same store2 show ?thesis by simp
qed

theorem packed_pixels_raise_before_any_array_witness:
  "env_get_pixel_depth ex_env (arg_compressor (ex_args\<lparr>arg_compressor := ''webp''\<rparr>)) = 3 \<and>
   error_of (to_tiledb ex_env (Some ex_reader) ''out'' (ex_args\<lparr>arg_compressor := ''webp''\<rparr>)
     ex_empty) = Some NotImplementedError \<and>
   st_store (end_state (to_tiledb ex_env (Some ex_reader) ''out''
     (ex_args\<lparr>arg_compressor := ''webp''\<rparr>) ex_empty)) ''out/l_0.tdb'' = None"
proof -
  let ?A = "ex_args\<lparr>arg_compressor := ''webp''\<rparr>"
  have h1: "env_get_pixel_depth ex_env (arg_compressor ?A) \<noteq> 1"
    by code_simp
  have h2: "object_type ex_empty ''out'' \<noteq> Some ''array''"
    by code_simp
  have h3: "0 \<in> set (level_range ex_reader ?A)"
    by code_simp
  have h4: "object_type ex_empty (level_uri ''out'' 0) \<noteq> Some ''array''"
    by code_simp
  have h5: "env_get_pixel_depth ex_env (arg_compressor ?A) = 3"
    by code_simp
  have h6: "st_store ex_empty ''out/l_0.tdb'' = None"
    by (simp add: ex_empty_def)
  from packed_pixels_raise_before_any_array [OF h1 h2 h3 h4] h5 h6 show ?thesis
    by simp
qed

text \<open>
  C8 as stated fails: with a packed pixel format and a minimum level beyond the levels of
  the image, the loop has nothing to do and the run raises nothing.
\<close>

theorem packed_pixels_empty_range_no_error:
  "env_get_pixel_depth ex_env
     (arg_compressor (ex_args\<lparr>arg_compressor := ''webp'', arg_level_min := 2\<rparr>)) = 3 \<and>
   error_of (to_tiledb ex_env (Some ex_reader) ''out''
     (ex_args\<lparr>arg_compressor := ''webp'', arg_level_min := 2\<rparr>) ex_empty) = None"
  by code_simp

section \<open>Properties of \<^verbatim>\<open>from_tiledb\<close>\<close>

lemma export_levels_map:
  "export_levels sl level_min levels =
     map (\<lambda>level. Write_level_image level (sl_read_level sl level True)
                    (sl_level_properties sl level))
       (filter (\<lambda>level. level_min \<le> level) levels)"
  by (induction levels) (simp_all add: Let_def)

text \<open>
  C9. An export hands the group metadata to the writer first; then, for every stored level
  whose number is at least \<open>level_min\<close>, in the order of the levels, it reads the whole
  level in the original axis order (\<^verbatim>\<open>to_original_axes=True\<close>) and hands the level, that
  image and the metadata of the level to \<^verbatim>\<open>write_level_image\<close>.
\<close>

theorem from_tiledb_writer_calls:
  "from_tiledb True sl level_min =
     Inr (Write_group_metadata (sl_properties sl) #
          map (\<lambda>level. Write_level_image level (sl_read_level sl level True)
                         (sl_level_properties sl level))
            (filter (\<lambda>level. level_min \<le> level) (sl_levels sl)))"
  by (simp add: from_tiledb_def export_levels_map)

section \<open>The log of a run\<close>

lemma emits_refl [simp]: "emits Q s s"
  by (simp add: emits_def)

lemma emits_trans: "emits Q s s' \<Longrightarrow> emits Q s' s'' \<Longrightarrow> emits Q s s''"
  by (fastforce simp: emits_def)

lemma emits_mono: "emits Q s s' \<Longrightarrow> (\<And>e. Q e \<Longrightarrow> Q' e) \<Longrightarrow> emits Q' s s'"
  by (auto simp: emits_def)

lemma emits_emit: "emits Q s s' \<Longrightarrow> Q e \<Longrightarrow> emits Q s (emit e s')"
  by (auto simp: emits_def)

lemma emits_same_log: "st_log s' = st_log s \<Longrightarrow> emits Q s s'"
  by (simp add: emits_def)

lemma emits_new_events: "emits Q s s' \<Longrightarrow> e \<in> set (new_events s s') \<Longrightarrow> Q e"
  by (auto simp: emits_def new_events_def)

lemma emits_tile_to_tiledb:
  "tile_to_tiledb rd am level uri t s = Inr s'
     \<Longrightarrow> emits (level_event True max_workers level uri) s s'"
  "tile_to_tiledb rd am level uri t s = Inl (e, s')
     \<Longrightarrow> emits (level_event True max_workers level uri) s s'"
  by (auto simp: tile_to_tiledb_def Let_def emits_def
        split: sum.splits dest!: setitem_log)

lemma emits_map_tiles:
  assumes "\<And>t s s'. f t s = Inr s' \<Longrightarrow> emits Q s s'"
      and "\<And>t s e s'. f t s = Inl (e, s') \<Longrightarrow> emits Q s s'"
  shows "map_tiles f ts s = Inr s' \<Longrightarrow> emits Q s s'"
    and "map_tiles f ts s = Inl (e, s') \<Longrightarrow> emits Q s s'"
proof (induction ts arbitrary: s)
  case Nil
  { case 1 then show ?case by simp }
  { case 2 then show ?case by simp }
next
  case (Cons t ts)
  { case 1
    then obtain s1 where f: "f t s = Inr s1" and rest: "map_tiles f ts s1 = Inr s'"
      by (auto split: sum.splits)
    from assms(1) [OF f] Cons.IH(1) [OF rest] show ?case by (rule emits_trans) }
  { case 2
    show ?case
    proof (cases "f t s")
      case (Inl es)
      with 2 have "f t s = Inl (e, s')" by simp
      then show ?thesis by (rule assms(2))
    next
      case (Inr s1)
      with 2 have rest: "map_tiles f ts s1 = Inl (e, s')" by simp
      from assms(1) [OF Inr] Cons.IH(2) [OF rest] show ?thesis by (rule emits_trans)
    qed }
qed

lemma emits_map_tile_to_tiledb:
  "map_tiles (tile_to_tiledb rd am level uri) ts s = Inr s'
     \<Longrightarrow> emits (level_event True max_workers level uri) s s'"
  "map_tiles (tile_to_tiledb rd am level uri) ts s = Inl (e, s')
     \<Longrightarrow> emits (level_event True max_workers level uri) s s'"
  by (erule emits_map_tiles [rotated 2]; erule emits_tile_to_tiledb)+

text \<open>The log of \<^verbatim>\<open>write_level\<close>, whatever its outcome.\<close>

lemma emits_write_level:
  "emits (level_event (chunked \<or> max_workers \<noteq> 0) max_workers level uri) s
     (end_state (write_level rd am chunked max_workers level uri s))"
proof -
  let ?Q = "level_event (chunked \<or> max_workers \<noteq> 0) max_workers level uri"
  let ?f = "tile_to_tiledb rd am level uri"
  show ?thesis
  proof (cases "tiledb_open uri s")
    case (Inl es)
    then obtain e where "es = (e, s)" by (cases es) (auto dest: tiledb_open_Inl)
    with Inl show ?thesis by (simp add: write_level_def)
  next
    case a: (Inr a)
    show ?thesis
    proof (cases "array_meta_update uri (r_level_metadata rd level ++ [''level'' \<mapsto> MInt level]) s")
      case (Inl es)
      obtain e s' where es: "es = (e, s')" by (cases es)
      with Inl a array_meta_update_log(2) [OF Inl [unfolded es]] show ?thesis
        by (simp add: write_level_def emits_same_log)
    next
      case s1: (Inr s1)
      have log1: "st_log s1 = st_log s" by (rule array_meta_update_log(1) [OF s1])
      have from_s1: "emits ?Q s s'" if "emits ?Q s1 s'" for s'
        using that log1 by (simp add: emits_def)
      let ?ts = "iter_tiles (sch_dims (a_schema a))"
      show ?thesis
      proof (cases "chunked \<or> max_workers \<noteq> 0")
        case tiled: True
        have tiles: "emits ?Q s0 (end_state (map_tiles ?f ?ts s0))" for s0
        proof (cases "map_tiles ?f ?ts s0")
          case (Inl es)
          obtain e s' where es: "es = (e, s')" by (cases es)
          from emits_map_tile_to_tiledb(2) [OF Inl [unfolded es], of max_workers] tiled Inl es
          show ?thesis by simp
        next
          case (Inr s')
          from emits_map_tile_to_tiledb(1) [OF Inr, of max_workers] tiled Inr
          show ?thesis by simp
        qed
        show ?thesis
        proof (cases "max_workers = 0")
          case True
          with tiled a s1 have "write_level rd am chunked max_workers level uri s
              = map_tiles ?f ?ts s1"
            by (simp add: write_level_def)
          with tiles [of s1] show ?thesis by (simp add: from_s1)
        next
          case mw: False
          show ?thesis
          proof (cases "max_workers < 0")
            case True
            with mw a s1 have "write_level rd am chunked max_workers level uri s
                = Inl (ValueError, s1)"
              by (simp add: write_level_def)
            then show ?thesis by (simp add: from_s1)
          next
            case False
            with mw have pos: "0 < max_workers" by simp
            let ?s1' = "emit (PoolCreate max_workers) s1"
            have pool: "emits ?Q s1 ?s1'"
              using pos by (simp add: emits_def)
            show ?thesis
            proof (cases "map_tiles ?f ?ts ?s1'")
              case (Inl es)
              with mw False a s1 have "write_level rd am chunked max_workers level uri s = Inl es"
                by (simp add: write_level_def)
              with tiles [of ?s1'] Inl emits_trans [OF pool] show ?thesis
                by (simp add: from_s1)
            next
              case (Inr s2)
              with mw False a s1 have "write_level rd am chunked max_workers level uri s
                  = Inr (emit PoolShutdown s2)"
                by (simp add: write_level_def)
              moreover from tiles [of ?s1'] Inr have "emits ?Q ?s1' s2" by simp
              with pool have "emits ?Q s1 s2" by (rule emits_trans)
              then have "emits ?Q s1 (emit PoolShutdown s2)"
                using pos by (intro emits_emit) simp_all
              ultimately show ?thesis by (simp add: from_s1)
            qed
          qed
        qed
      next
        case whole: False
        let ?s2 = "emit (ReadLevelImage level None) s1"
        have read: "emits ?Q s1 ?s2"
          using whole by (simp add: emits_def)
        show ?thesis
        proof (cases "map_array am (r_level_image rd level None)")
          case (Inl e)
          with whole a s1 have "write_level rd am chunked max_workers level uri s = Inl (e, ?s2)"
            by (simp add: write_level_def Let_def)
          with read show ?thesis by (simp add: from_s1)
        next
          case arr: (Inr arr)
          show ?thesis
          proof (cases "setitem uri (full_tile (sch_dims (a_schema a))) arr ?s2")
            case (Inl es)
            obtain e s' where es: "es = (e, s')" by (cases es)
            from Inl whole a s1 arr
            have "write_level rd am chunked max_workers level uri s = Inl es"
              by (simp add: write_level_def Let_def)
            moreover from setitem_log(2) [OF Inl [unfolded es]] have "emits ?Q ?s2 s'"
              by (rule emits_same_log)
            with read have "emits ?Q s1 s'" by (rule emits_trans)
            ultimately show ?thesis using es by (simp add: from_s1)
          next
            case (Inr s3)
            from Inr whole a s1 arr
            have "write_level rd am chunked max_workers level uri s = Inr (emit (WriteAll uri) s3)"
              by (simp add: write_level_def Let_def)
            moreover from setitem_log(1) [OF Inr] have "emits ?Q ?s2 s3"
              by (rule emits_same_log)
            with read have "emits ?Q s1 s3" by (rule emits_trans)
            then have "emits ?Q s1 (emit (WriteAll uri) s3)"
              using whole by (intro emits_emit) simp_all
            ultimately show ?thesis by (simp add: from_s1)
          qed
        qed
      qed
    qed
  qed
qed

lemma Array_create_log:
  "Array_create uri schema s = Inr s' \<Longrightarrow> st_log s' = st_log s"
  "Array_create uri schema s = Inl (e, s') \<Longrightarrow> st_log s' = st_log s"
  by (auto simp: Array_create_def split: option.splits)

lemma emits_from_same_log: "st_log s1 = st_log s \<Longrightarrow> emits Q s1 s' \<Longrightarrow> emits Q s s'"
  by (simp add: emits_def)

lemma emits_convert_level:
  "convert_level rd A output_path pixel_depth max_tiles level (vs, s) = Inr (vs', s')
     \<Longrightarrow> emits (levels_event A output_path [level]) s s'"
  "convert_level rd A output_path pixel_depth max_tiles level (vs, s) = Inl (e, s')
     \<Longrightarrow> emits (levels_event A output_path [level]) s s'"
proof -
  have Q: "levels_event A output_path [level] =
           level_event (arg_chunked A \<or> arg_max_workers A \<noteq> 0) (arg_max_workers A) level
             (level_uri output_path level)"
    by (rule ext) (simp add: levels_event_def)
  assume "convert_level rd A output_path pixel_depth max_tiles level (vs, s) = Inr (vs', s')"
  then show "emits (levels_event A output_path [level]) s s'"
  proof (rule convert_level_Inr)
    fix axes_mapper dim_shape schema s1
    assume c: "Array_create (level_uri output_path level) schema s = Inr s1"
      and w: "write_level rd axes_mapper (arg_chunked A) (arg_max_workers A) level
       (level_uri output_path level) s1 = Inr s'"
    from emits_write_level [of "arg_chunked A" "arg_max_workers A" level
        "level_uri output_path level" s1 rd axes_mapper] w
    have "emits (levels_event A output_path [level]) s1 s'" by (simp add: Q)
    with Array_create_log(1) [OF c] show ?thesis by (rule emits_from_same_log)
  qed
next
  have Q: "levels_event A output_path [level] =
           level_event (arg_chunked A \<or> arg_max_workers A \<noteq> 0) (arg_max_workers A) level
             (level_uri output_path level)"
    by (rule ext) (simp add: levels_event_def)
  assume "convert_level rd A output_path pixel_depth max_tiles level (vs, s) = Inl (e, s')"
  then show "emits (levels_event A output_path [level]) s s'"
  proof (rule convert_level_Inl)
    assume "s' = s"
    then show ?thesis by simp
  next
    fix axes_mapper dim_shape schema s1
    assume c: "Array_create (level_uri output_path level) schema s = Inr s1"
      and w: "write_level rd axes_mapper (arg_chunked A) (arg_max_workers A) level
       (level_uri output_path level) s1 = Inl (e, s')"
    from emits_write_level [of "arg_chunked A" "arg_max_workers A" level
        "level_uri output_path level" s1 rd axes_mapper] w
    have "emits (levels_event A output_path [level]) s1 s'" by (simp add: Q)
    with Array_create_log(1) [OF c] show ?thesis by (rule emits_from_same_log)
  qed
qed

lemma levels_event_mono:
  "levels_event A output_path ls e \<Longrightarrow> set ls \<subseteq> set ls' \<Longrightarrow> levels_event A output_path ls' e"
  by (auto simp: levels_event_def)

lemma emits_convert_levels:
  "convert_levels rd A output_path pixel_depth max_tiles ls (vs, s) = Inr (vs', s')
     \<Longrightarrow> emits (levels_event A output_path ls) s s'"
  "convert_levels rd A output_path pixel_depth max_tiles ls (vs, s) = Inl (e, s')
     \<Longrightarrow> emits (levels_event A output_path ls) s s'"
proof (induction ls arbitrary: vs s)
  case Nil
  { case 1 then show ?case by simp }
  { case 2 then show ?case by simp }
next
  case (Cons l ls)
  have head: "emits (levels_event A output_path (l # ls)) s0 s1"
    if "emits (levels_event A output_path [l]) s0 s1" for s0 s1
    using that by (rule emits_mono) (auto elim: levels_event_mono)
  have tail: "emits (levels_event A output_path (l # ls)) s0 s1"
    if "emits (levels_event A output_path ls) s0 s1" for s0 s1
    using that by (rule emits_mono) (auto elim: levels_event_mono)
  { case 1
    show ?case
    proof (cases "object_type s (level_uri output_path l) = Some ''array''")
      case True
      with 1 Cons.IH(1) show ?thesis by (auto intro: tail)
    next
      case False
      with 1 obtain vs1 s1 where
        step: "convert_level rd A output_path pixel_depth max_tiles l (vs, s) = Inr (vs1, s1)"
        and rest: "convert_levels rd A output_path pixel_depth max_tiles ls (vs1, s1) = Inr (vs', s')"
        by (auto split: sum.splits)
      from head [OF emits_convert_level(1) [OF step]] tail [OF Cons.IH(1) [OF rest]]
      show ?thesis by (rule emits_trans)
    qed }
  { case 2
    show ?case
    proof (cases "object_type s (level_uri output_path l) = Some ''array''")
      case True
      with 2 Cons.IH(2) show ?thesis by (auto intro: tail)
    next
      case False
      show ?thesis
      proof (cases "convert_level rd A output_path pixel_depth max_tiles l (vs, s)")
        case (Inl es)
        with False 2 have "convert_level rd A output_path pixel_depth max_tiles l (vs, s) = Inl (e, s')"
          by simp
        then show ?thesis by (intro head emits_convert_level(2))
      next
        case (Inr vs_s1)
        obtain vs1 s1 where vs_s1: "vs_s1 = (vs1, s1)" by (cases vs_s1)
        with Inr False 2 have
          rest: "convert_levels rd A output_path pixel_depth max_tiles ls (vs1, s1) = Inl (e, s')"
          by simp
        from head [OF emits_convert_level(1) [OF Inr [unfolded vs_s1]]]
          tail [OF Cons.IH(2) [OF rest]]
        show ?thesis by (rule emits_trans)
      qed
    qed }
qed

text \<open>The log of the loop of \<^verbatim>\<open>_scale\<close>: only calls of the scaler, whatever the outcome.\<close>

lemma emits_scale_levels:
  "emits is_scaler_apply s
     (final (\<lambda>r. snd (snd r))
        (scale_levels sc output_path dim_names attr_dtype tiles compressor shapes level
           (uris, levels_meta, s)))"
proof (induction shapes arbitrary: level uris levels_meta s)
  case Nil
  show ?case by simp
next
  case (Cons ish shapes)
  obtain index level_shape where ish: "ish = (index, level_shape)" by (cases ish)
  define r where "r = scale_levels sc output_path dim_names attr_dtype tiles compressor
           ((index, level_shape) # shapes) level (uris, levels_meta, s)"
  have "emits is_scaler_apply s (final (\<lambda>r. snd (snd r)) r)"
    using r_def [symmetric]
  proof (cases rule: scale_levels_step)
    case (fail_early e)
    then show ?thesis by simp
  next
    case (fail_late e schema s1 s')
    then show ?thesis by (simp add: emits_same_log)
  next
    case (continue schema s1 s3)
    then have "emits is_scaler_apply s s3"
      by (simp add: emits_def)
    from emits_trans [OF this Cons.IH] continue(6) show ?thesis by simp
  qed
  with ish r_def show ?case by simp
qed




lemma emits_scale:
  "emits is_scaler_apply s
     (final (\<lambda>r. snd (snd r))
        (scale uris levels_meta output_path level_min dim_names attr_dtype tiles compressor
           pyramid_kwargs s))"
  using emits_scale_levels
  by (auto simp: scale_def split: list.splits sum.splits dest: tiledb_open_Inl)

lemma group_stage_log:
  "group_stage output_path s = Inr s' \<Longrightarrow> st_log s' = st_log s"
  "group_stage output_path s = Inl (e, s') \<Longrightarrow> st_log s' = st_log s"
  by (auto simp: group_stage_def group_create_def split: if_splits option.splits)

lemma write_group_metadata_log:
  "write_group_metadata E rd output_path uris levels_meta s = Inr s' \<Longrightarrow> st_log s' = st_log s"
  "write_group_metadata E rd output_path uris levels_meta s = Inl (e, s') \<Longrightarrow> st_log s' = st_log s"
  by (auto simp: write_group_metadata_def split: option.splits obj.splits)

lemma emits_pyramid_stage:
  "pyramid_stage A output_path max_tiles vs s = Inr (uris, levels_meta, s')
     \<Longrightarrow> emits (\<lambda>e. is_scaler_apply e \<and> arg_pyramid_kwargs A \<noteq> None) s s'"
  "pyramid_stage A output_path max_tiles vs s = Inl (e, s')
     \<Longrightarrow> emits (\<lambda>e. is_scaler_apply e \<and> arg_pyramid_kwargs A \<noteq> None) s s'"
proof -
  have *: "emits (\<lambda>e. is_scaler_apply e \<and> arg_pyramid_kwargs A \<noteq> None) s
             (final (\<lambda>r. snd (snd r)) (pyramid_stage A output_path max_tiles vs s))"
  proof (cases "arg_pyramid_kwargs A")
    case None
    then show ?thesis by (simp add: pyramid_stage_def)
  next
    case (Some pk)
    then have "emits is_scaler_apply s
             (final (\<lambda>r. snd (snd r)) (pyramid_stage A output_path max_tiles vs s))"
      using emits_scale by (simp add: pyramid_stage_def split: option.splits)
    then show ?thesis by (rule emits_mono) (simp add: Some)
  qed
  show "pyramid_stage A output_path max_tiles vs s = Inr (uris, levels_meta, s')
     \<Longrightarrow> emits (\<lambda>e. is_scaler_apply e \<and> arg_pyramid_kwargs A \<noteq> None) s s'"
    using * by simp
  show "pyramid_stage A output_path max_tiles vs s = Inl (e, s')
     \<Longrightarrow> emits (\<lambda>e. is_scaler_apply e \<and> arg_pyramid_kwargs A \<noteq> None) s s'"
    using * by simp
qed

lemma write_level_max_workers:
  "max_workers \<noteq> 0 \<Longrightarrow>
   write_level rd am False max_workers level uri s = write_level rd am True max_workers level uri s"
  by (simp add: write_level_def split: sum.splits)

lemma convert_level_max_workers:
  assumes "arg_max_workers A \<noteq> 0"
  shows "convert_level rd (A\<lparr>arg_chunked := False\<rparr>) output_path pixel_depth max_tiles level vs_s
       = convert_level rd (A\<lparr>arg_chunked := True\<rparr>) output_path pixel_depth max_tiles level vs_s"
  using assms
  by (simp add: convert_level_def Let_def write_level_max_workers split: sum.splits)

lemma convert_levels_max_workers:
  assumes "arg_max_workers A \<noteq> 0"
  shows "convert_levels rd (A\<lparr>arg_chunked := False\<rparr>) output_path pixel_depth max_tiles ls vs_s
       = convert_levels rd (A\<lparr>arg_chunked := True\<rparr>) output_path pixel_depth max_tiles ls vs_s"
  by (induction ls arbitrary: vs_s)
     (simp_all add: convert_level_max_workers [OF assms] split: sum.splits)

lemma to_tiledb_max_workers:
  assumes "arg_max_workers A \<noteq> 0"
  shows "to_tiledb E R output_path (A\<lparr>arg_chunked := False\<rparr>) s
       = to_tiledb E R output_path (A\<lparr>arg_chunked := True\<rparr>) s"
  by (simp add: to_tiledb_stages convert_levels_max_workers [OF assms]
        level_range_def level_max_of_def warns_def pyramid_stage_def
        split: option.splits sum.splits)

lemma emits_chain3:
  "emits Q a b \<Longrightarrow> emits Q b c \<Longrightarrow> emits Q c d \<Longrightarrow> emits Q a d"
  by (blast intro: emits_trans)

lemma emits_chain4:
  "emits Q a b \<Longrightarrow> emits Q b c \<Longrightarrow> emits Q c d \<Longrightarrow> emits Q d e \<Longrightarrow> emits Q a e"
  by (blast intro: emits_trans)

lemma emits_chain5:
  "emits Q a b \<Longrightarrow> emits Q b c \<Longrightarrow> emits Q c d \<Longrightarrow> emits Q d e \<Longrightarrow> emits Q e f
     \<Longrightarrow> emits Q a f"
  by (blast intro: emits_trans)

text \<open>The events of a run, whatever its outcome.\<close>

lemma emits_to_tiledb:
  "emits (run_event rd A output_path) s (end_state (to_tiledb E (Some rd) output_path A s))"
proof -
  let ?Q = "run_event rd A output_path"
  define r where "r = to_tiledb E (Some rd) output_path A s"
  have warn: "emits ?Q s1 (if warns rd A then emit Warn s1 else s1)" for s1
    by (simp add: emits_def run_event_def)
  have levels: "emits ?Q s0 s1" if "emits (levels_event A output_path (level_range rd A)) s0 s1"
    for s0 s1
    using that by (rule emits_mono) (simp add: run_event_def)
  have pyramid: "emits ?Q s0 s1"
    if "emits (\<lambda>e. is_scaler_apply e \<and> arg_pyramid_kwargs A \<noteq> None) s0 s1" for s0 s1
    using that by (rule emits_mono) (simp add: run_event_def)
  have "emits ?Q s (end_state r)"
    using r_def [symmetric]
  proof (cases rule: to_tiledb_cases)
    case no_reader
    then show ?thesis by simp
  next
    case (group_fail rd' e s')
    with group_stage_log(2) [of output_path s e s'] show ?thesis
      by (simp add: emits_same_log)
  next
    case (levels_fail rd' s1 e s')
    then have rd: "rd' = rd" by simp
    have "emits ?Q s s1" by (rule emits_same_log) (rule group_stage_log(1), fact)
    moreover note warn [of s1]
    moreover have "emits ?Q (if warns rd A then emit Warn s1 else s1) s'"
      using emits_convert_levels(2) [OF levels_fail(3)] rd by (intro levels) simp
    ultimately have "emits ?Q s s'" by (rule emits_chain3)
    with levels_fail(4) show ?thesis by simp
  next
    case (pyramid_fail rd' s1 vs s3 e s')
    then have rd: "rd' = rd" by simp
    have "emits ?Q s s1" by (rule emits_same_log) (rule group_stage_log(1), fact)
    moreover note warn [of s1]
    moreover have "emits ?Q (if warns rd A then emit Warn s1 else s1) s3"
      using emits_convert_levels(1) [OF pyramid_fail(3)] rd by (intro levels) simp
    moreover have "emits ?Q s3 s'"
      by (rule pyramid) (rule emits_pyramid_stage(2), fact)
    ultimately have "emits ?Q s s'" by (rule emits_chain4)
    with pyramid_fail(5) show ?thesis by simp
  next
    case (metadata_fail rd' s1 vs s3 uris levels_meta s4 e s')
    then have rd: "rd' = rd" by simp
    have "emits ?Q s s1" by (rule emits_same_log) (rule group_stage_log(1), fact)
    moreover note warn [of s1]
    moreover have "emits ?Q (if warns rd A then emit Warn s1 else s1) s3"
      using emits_convert_levels(1) [OF metadata_fail(3)] rd by (intro levels) simp
    moreover have "emits ?Q s3 s4"
      by (rule pyramid) (rule emits_pyramid_stage(1), fact)
    moreover have "emits ?Q s4 s'"
      by (rule emits_same_log) (rule write_group_metadata_log(2), fact)
    ultimately have "emits ?Q s s'" by (rule emits_chain5)
    with metadata_fail(6) show ?thesis by simp
  next
    case (success rd' s1 vs s3 uris levels_meta s4 s5)
    then have rd: "rd' = rd" by simp
    have "emits ?Q s s1" by (rule emits_same_log) (rule group_stage_log(1), fact)
    moreover note warn [of s1]
    moreover have "emits ?Q (if warns rd A then emit Warn s1 else s1) s3"
      using emits_convert_levels(1) [OF success(3)] rd by (intro levels) simp
    moreover have "emits ?Q s3 s4"
      by (rule pyramid) (rule emits_pyramid_stage(1), fact)
    moreover have "emits ?Q s4 s5"
      by (rule emits_same_log) (rule write_group_metadata_log(1), fact)
    ultimately have "emits ?Q s s5" by (rule emits_chain5)
    then have "emits ?Q s (if take 9 output_path = ''tiledb://''
                then emit (CloudRegister (basename output_path)) s5 else s5)"
      by (auto intro: emits_emit simp: run_event_def)
    with success(6) show ?thesis by simp
  qed
  then show ?thesis by (simp add: r_def)
qed

lemma new_events_no_reader:
  "new_events s (end_state (to_tiledb E None output_path A s)) = []"
  by (simp add: to_tiledb_def new_events_def)

text \<open>
  C10. With a number of workers other than 0, a run with \<^verbatim>\<open>chunked=False\<close> is the run
  with \<^verbatim>\<open>chunked=True\<close>: each level is written tile by tile, through a pool of that many
  workers. In any run, a whole-image write occurs only when \<^verbatim>\<open>chunked\<close> is false and
  \<^verbatim>\<open>max_workers\<close> is 0, and a pool is created only for a positive \<^verbatim>\<open>max_workers\<close>.
\<close>

theorem max_workers_selects_tiled_path:
  "(arg_max_workers A \<noteq> 0 \<longrightarrow>
      to_tiledb E R output_path (A\<lparr>arg_chunked := False\<rparr>) s
        = to_tiledb E R output_path (A\<lparr>arg_chunked := True\<rparr>) s) \<and>
   (\<forall>e \<in> set (new_events s (end_state (to_tiledb E R output_path A s))).
      case e of
        WriteAll u \<Rightarrow> \<not> arg_chunked A \<and> arg_max_workers A = 0
      | ReadLevelImage l t \<Rightarrow> (t = None \<longleftrightarrow> \<not> arg_chunked A \<and> arg_max_workers A = 0)
      | WriteTile u t \<Rightarrow> arg_chunked A \<or> arg_max_workers A \<noteq> 0
      | PoolCreate n \<Rightarrow> n = arg_max_workers A \<and> 0 < n
      | _ \<Rightarrow> True)"
proof (intro conjI impI ballI)
  assume "arg_max_workers A \<noteq> 0"
  then show "to_tiledb E R output_path (A\<lparr>arg_chunked := False\<rparr>) s
        = to_tiledb E R output_path (A\<lparr>arg_chunked := True\<rparr>) s"
    by (rule to_tiledb_max_workers)
next
  fix e
  assume e: "e \<in> set (new_events s (end_state (to_tiledb E R output_path A s)))"
  then obtain rd where R: "R = Some rd"
    by (cases R) (simp_all add: new_events_no_reader)
  from emits_new_events [OF emits_to_tiledb e [unfolded R]]
  have "run_event rd A output_path e" .
  then show "case e of
        WriteAll u \<Rightarrow> \<not> arg_chunked A \<and> arg_max_workers A = 0
      | ReadLevelImage l t \<Rightarrow> (t = None \<longleftrightarrow> \<not> arg_chunked A \<and> arg_max_workers A = 0)
      | WriteTile u t \<Rightarrow> arg_chunked A \<or> arg_max_workers A \<noteq> 0
      | PoolCreate n \<Rightarrow> n = arg_max_workers A \<and> 0 < n
      | _ \<Rightarrow> True"
    by (cases e) (auto simp: run_event_def levels_event_def)
qed

theorem max_workers_selects_tiled_path_witness:
  "arg_max_workers (ex_args\<lparr>arg_max_workers := 2\<rparr>) \<noteq> 0 \<and>
   to_tiledb ex_env (Some ex_reader) ''out''
       (ex_args\<lparr>arg_max_workers := 2, arg_chunked := False\<rparr>) ex_empty
     = to_tiledb ex_env (Some ex_reader) ''out''
       (ex_args\<lparr>arg_max_workers := 2, arg_chunked := True\<rparr>) ex_empty \<and>
   new_events ex_empty (end_state (to_tiledb ex_env (Some ex_reader) ''out''
       (ex_args\<lparr>arg_max_workers := 2\<rparr>) ex_empty))
     = [PoolCreate 2,
        ReadLevelImage 0 (Some [(0, 2), (0, 1)]), WriteTile ''out/l_0.tdb'' [(0, 1), (0, 2)],
        ReadLevelImage 0 (Some [(0, 2), (1, 2)]), WriteTile ''out/l_0.tdb'' [(1, 2), (0, 2)],
        ReadLevelImage 0 (Some [(0, 2), (2, 3)]), WriteTile ''out/l_0.tdb'' [(2, 3), (0, 2)],
        PoolShutdown,
        PoolCreate 2,
        ReadLevelImage 1 (Some [(0, 2), (0, 1)]), WriteTile ''out/l_1.tdb'' [(0, 1), (0, 2)],
        PoolShutdown]"
proof -
  have h1: "arg_max_workers (ex_args\<lparr>arg_max_workers := 2\<rparr>) \<noteq> 0"
    by code_simp
  have h2: "new_events ex_empty (end_state (to_tiledb ex_env (Some ex_reader) ''out''
       (ex_args\<lparr>arg_max_workers := 2\<rparr>) ex_empty))
     = [PoolCreate 2,
        ReadLevelImage 0 (Some [(0, 2), (0, 1)]), WriteTile ''out/l_0.tdb'' [(0, 1), (0, 2)],
        ReadLevelImage 0 (Some [(0, 2), (1, 2)]), WriteTile ''out/l_0.tdb'' [(1, 2), (0, 2)],
        ReadLevelImage 0 (Some [(0, 2), (2, 3)]), WriteTile ''out/l_0.tdb'' [(2, 3), (0, 2)],
        PoolShutdown,
        PoolCreate 2,
        ReadLevelImage 1 (Some [(0, 2), (0, 1)]), WriteTile ''out/l_1.tdb'' [(0, 1), (0, 2)],
        PoolShutdown]"
    by code_simp
  from max_workers_selects_tiled_path [of "ex_args\<lparr>arg_max_workers := 2\<rparr>" ex_env
      "Some ex_reader" "''out''" ex_empty] h1 h2
  show ?thesis by simp
qed

section \<open>The levels of a run\<close>















section \<open>Chunked and whole-image writes\<close>

subsection \<open>The tiles of a domain\<close>








subsection \<open>The permutation of an axes mapper and its inverse\<close>











lemma length_tile_shape [simp]: "length (tile_shape t) = length t"
  by (simp add: tile_shape_def)












subsection \<open>Runs on states with the same store\<close>

lemma agree_simps [simp]:
  "agree R (Inl (e, s)) (Inl (e', s')) \<longleftrightarrow> e = e' \<and> same_store s s'"
  "agree R (Inr x) (Inr y) \<longleftrightarrow> R x y"
  "\<not> agree R (Inl es) (Inr y)"
  "\<not> agree R (Inr x) (Inl es)"
  by (simp_all add: agree_def)


lemma same_store_emit [simp]:
  "same_store (emit e s) t \<longleftrightarrow> same_store s t"
  "same_store s (emit e t) \<longleftrightarrow> same_store s t"
  by (simp_all add: same_store_def)




lemma group_stage_agree:
  "same_store s t \<Longrightarrow> agree same_store (group_stage output_path s) (group_stage output_path t)"
  by (auto simp: group_stage_def group_create_def object_type_def same_store_def
        split: option.splits obj.splits)




















end
